theory Spec2Isabelle
  imports Complex_Main "HOL-Library.Multiset"
begin

section \<open>FareHunter: alternate drop-off discovery\<close>

text \<open>
  A shallow embedding of the discovery engine of FareHunter (the client component
  \<^verbatim>\<open>PageClient\<close> with its three-tier pipeline, the fare models, the tail sampler) and
  of the older variants of the fare model that live beside it.

  Conventions of the embedding.
  \<^item> A JavaScript \<^verbatim>\<open>number\<close> is a \<^typ>\<open>real\<close>: arithmetic is exact, there is no NaN, no
    infinity and no rounding of binary floating point. \<^verbatim>\<open>Math.floor\<close> is \<open>\<lfloor>_\<rfloor>\<close> and
    \<^verbatim>\<open>Math.round\<close> (round half up) is \<open>\<lfloor>x + 1/2\<rfloor>\<close>.
  \<^item> A thrown exception is the left summand of a sum type; \<^verbatim>\<open>null\<close> is \<open>None\<close>.
  \<^item> A network provider is a function from its arguments to its outcome, so a repeated
    query returns what the first one returned.
  \<^item> A \<^verbatim>\<open>for\<close> loop is a recursive function over the list it walks.
  \<^item> What the body of a function reads is a property of its text, not of the function
    it computes: the fare models are given a second time as syntax, with an evaluator,
    and each is proved to compute its shallow counterpart.
\<close>

subsection \<open>Numbers and errors\<close>

datatype error = TypeError | FetchError

definition js_round :: "real \<Rightarrow> int" where
  "js_round x = \<lfloor>x + 1/2\<rfloor>"

text \<open>
  \<^verbatim>\<open>x.toFixed(f)\<close> prints a minus sign when \<open>x < 0\<close> and then the integer \<open>n\<close> with
  \<open>n / 10^f\<close> closest to \<open>\<bar>x\<bar>\<close> (the larger one on a tie), with the decimal point \<open>f\<close> digits
  from the right. The printed string and the pair (sign, \<open>n\<close>) determine each other, so
  the pair stands for the string.
\<close>

definition toFixed :: "nat \<Rightarrow> real \<Rightarrow> bool \<times> int" where
  "toFixed f x = (x < 0, \<lfloor>\<bar>x\<bar> * 10 ^ f + 1/2\<rfloor>)"

text \<open>\<^verbatim>\<open>xs.slice(s, e)\<close> for \<open>0 \<le> s\<close> and \<open>0 \<le> e \<le> length xs\<close>.\<close>

definition js_slice :: "'a list \<Rightarrow> int \<Rightarrow> int \<Rightarrow> 'a list" where
  "js_slice xs s e = take (nat (e - s)) (drop (nat s) xs)"

text \<open>
  A loop whose body either throws, skips (\<^verbatim>\<open>continue\<close>) or pushes one element:
  the elements pushed, in order, or the first exception.
\<close>

fun forPush :: "('a \<Rightarrow> error + 'b option) \<Rightarrow> 'a list \<Rightarrow> error + 'b list" where
  "forPush f [] = Inr []"
| "forPush f (x # xs) =
     (case f x of
        Inl e \<Rightarrow> Inl e
      | Inr r \<Rightarrow>
          (case forPush f xs of
             Inl e \<Rightarrow> Inl e
           | Inr rs \<Rightarrow> Inr (case r of None \<Rightarrow> rs | Some c \<Rightarrow> c # rs)))"

text \<open>
  \<^verbatim>\<open>Array.prototype.sort(cmp)\<close> is a stable sort: an element goes before the first
  element that the comparator does not put ahead of it.
\<close>

fun insort_cmp :: "('a \<Rightarrow> 'a \<Rightarrow> real) \<Rightarrow> 'a \<Rightarrow> 'a list \<Rightarrow> 'a list" where
  "insort_cmp cmp x [] = [x]"
| "insort_cmp cmp x (y # ys) =
     (if cmp x y \<le> 0 then x # y # ys else y # insort_cmp cmp x ys)"

definition sort_cmp :: "('a \<Rightarrow> 'a \<Rightarrow> real) \<Rightarrow> 'a list \<Rightarrow> 'a list" where
  "sort_cmp cmp xs = foldr (insort_cmp cmp) xs []"

subsection \<open>Data\<close>

record LatLng =
  lat :: real
  lng :: real

text \<open>What the directions provider returns for one route; coordinates are \<open>[lng, lat]\<close>.\<close>

record route_stats =
  distance :: real
  duration :: real
  coords :: "(real \<times> real) list"

text \<open>\<^verbatim>\<open>RouteGeo\<close>; the colour and the kind of a route only drive the map.\<close>

record RouteGeo = route_stats +
  label :: string

record FareQuote =
  low :: real
  high :: real
  center :: real

subsection \<open>Geometry\<close>

definition DEG2RAD :: real where
  "DEG2RAD = pi / 180"

definition EARTH_M :: real where
  "EARTH_M = 6371000"

definition haversineMeters :: "LatLng \<Rightarrow> LatLng \<Rightarrow> real" where
  "haversineMeters a b =
     (let dLat = (lat b - lat a) * DEG2RAD;
          dLng = (lng b - lng a) * DEG2RAD;
          lat1 = lat a * DEG2RAD;
          lat2 = lat b * DEG2RAD;
          h = (sin (dLat / 2))\<^sup>2 + cos lat1 * cos lat2 * (sin (dLng / 2))\<^sup>2
      in 2 * EARTH_M * arcsin (min 1 (sqrt h)))"

definition metersToMinWalk :: "real \<Rightarrow> int" where
  "metersToMinWalk m = js_round (m / 1.33 / 60)"

subsection \<open>Zone penalties\<close>

record Box =
  minLat :: real
  maxLat :: real
  minLng :: real
  maxLng :: real

definition ZONES :: "(string \<times> Box \<times> real) list" where
  "ZONES =
     [(''Downtown'', \<lparr>minLat = 30.260, maxLat = 30.275, minLng = -97.753, maxLng = -97.734\<rparr>, 0.75),
      (''Airport'', \<lparr>minLat = 30.187, maxLat = 30.217, minLng = -97.706, maxLng = -97.648\<rparr>, 1.25)]"

definition inBox :: "LatLng \<Rightarrow> Box \<Rightarrow> bool" where
  "inBox p b \<longleftrightarrow> lat p \<ge> minLat b \<and> lat p \<le> maxLat b \<and> lng p \<ge> minLng b \<and> lng p \<le> maxLng b"

definition zonePenaltyUSD :: "LatLng \<Rightarrow> real" where
  "zonePenaltyUSD p = foldl (\<lambda>s (name, box, pen). if inBox p box then s + pen else s) 0 ZONES"

subsection \<open>Fare models\<close>

text \<open>
  The price model of \<^verbatim>\<open>PageClient\<close>: the surge and the penalty are arguments
  (\<^verbatim>\<open>surge = 1.0\<close> and \<^verbatim>\<open>penaltyUSD = 0\<close> when the caller leaves them out).
\<close>

definition modeledPriceUSD :: "real \<Rightarrow> real \<Rightarrow> real \<Rightarrow> real \<Rightarrow> FareQuote" where
  "modeledPriceUSD distance_m duration_s surge penaltyUSD =
     (let miles = distance_m / 1609.34;
          mins = duration_s / 60;
          base = 2.25; perMile = 1.50; perMin = 0.33; service = 1.2;
          est = (base + perMile * miles + perMin * mins + service) * surge + penaltyUSD;
          center = max 5 est
      in \<lparr>low = max 4.5 (center * 0.9), high = center * 1.12, center = center\<rparr>)"

text \<open>
  What a call can read besides its arguments: the wall clock, as the hour of the day
  (\<^verbatim>\<open>new Date().getHours()\<close>), the day of the week (\<^verbatim>\<open>getDay()\<close>) and the epoch
  milliseconds (\<^verbatim>\<open>Date.now()\<close>).
\<close>

record world =
  hours :: nat
  day :: nat
  now_ms :: real

definition seededRand :: "real \<Rightarrow> real" where
  "seededRand seed = (let x = sin seed * 10000 in x - of_int \<lfloor>x\<rfloor>)"

text \<open>The older price model of \<^verbatim>\<open>src/app/page.tsx\<close> (both of its variants): two arguments, the surge from the clock.\<close>

definition modeledPriceUSD_page :: "world \<Rightarrow> real \<Rightarrow> real \<Rightarrow> FareQuote" where
  "modeledPriceUSD_page w distance_m duration_s =
     (let miles = distance_m / 1609.34;
          mins = duration_s / 60;
          base = 2.25; perMile = 1.50; perMin = 0.33; service = 1.2;
          h = hours w;
          rush = ((h \<ge> 7 \<and> h \<le> 9) \<or> (h \<ge> 16 \<and> h \<le> 19));
          surge = (if rush then 1.18 + seededRand (of_int \<lfloor>now_ms w / 60000\<rfloor>) * 0.35
                   else 1.0 + seededRand (of_int \<lfloor>now_ms w / 120000\<rfloor>) * 0.18);
          est = (base + perMile * miles + perMin * mins + service) * surge;
          center = max 5 est
      in \<lparr>low = max 4.5 (center * 0.9), high = center * 1.12, center = center\<rparr>)"

text \<open>
  The price model of the route handler \<^verbatim>\<open>api/uber/estimates/route.ts\<close>; the duration is
  optional, and \<^verbatim>\<open>duration_s ? \<dots> : \<dots>\<close> takes the second branch for a missing or zero duration.
\<close>

definition modeledPriceUSD_route :: "world \<Rightarrow> real \<Rightarrow> real option \<Rightarrow> FareQuote" where
  "modeledPriceUSD_route w distance_m duration_s =
     (let miles = distance_m / 1609.34;
          mins = (case duration_s of
                    None \<Rightarrow> max 5 (miles * 2.2)
                  | Some d \<Rightarrow> if d = 0 then max 5 (miles * 2.2) else d / 60);
          base = 2.25; perMile = 1.50; perMin = 0.33; service = 1.2;
          h = hours w;
          rush = ((h \<ge> 7 \<and> h \<le> 9) \<or> (h \<ge> 16 \<and> h \<le> 19));
          rnd = sin (of_int \<lfloor>now_ms w / 60000\<rfloor>) * 0.5 + 0.5;
          surge = (if rush then 1.15 + rnd * 0.35 else 1.0 + rnd * 0.2);
          center = max 5 ((base + perMile * miles + perMin * mins + service) * surge)
      in \<lparr>low = center * 0.9, high = center * 1.15, center = center\<rparr>)"

subsection \<open>The estimator of \<^verbatim>\<open>lib/estimator.ts\<close>\<close>

record PriceRange =
  pr_low :: real
  pr_high :: real
  pr_center :: real

definition round2 :: "real \<Rightarrow> real" where
  "round2 n = of_int (js_round (n * 100)) / 100"

definition timeOfDayFactor :: "world \<Rightarrow> real" where
  "timeOfDayFactor d =
     (let h = hours d; dow = day d;
          f = 1.0;
          weekday = (dow \<ge> 1 \<and> dow \<le> 5);
          f = (if weekday \<and> ((h \<ge> 7 \<and> h \<le> 9) \<or> (h \<ge> 16 \<and> h \<le> 19)) then f * 1.25 else f);
          f = (if (dow = 5 \<or> dow = 6) \<and> (h \<ge> 20 \<or> h \<le> 2) then f * 1.35 else f)
      in f)"

text \<open>
  \<^verbatim>\<open>estimatePriceRange\<close> after its \<^verbatim>\<open>await getDriveStats(\<dots>)\<close> has delivered the miles
  and the minutes of the drive; \<open>now\<close> is its fourth argument. The \<^verbatim>\<open>meta\<close> field of the
  result is left out.
\<close>

definition estimatePriceRange :: "real \<Rightarrow> real \<Rightarrow> world \<Rightarrow> PriceRange" where
  "estimatePriceRange miles driveMin now =
     (let base = 2.25; perMile = 1.55; perMin = 0.28; booking = 2.00; minFare = 7.00;
          price = base + perMile * miles + perMin * driveMin + booking;
          tod = timeOfDayFactor now;
          price = price * tod;
          price = max price minFare;
          baseBand = (if tod > 1.2 then 0.28 else 0.18);
          low = max minFare (round2 (price * (1 - baseBand)));
          high = round2 (price * (1 + baseBand))
      in \<lparr>pr_low = low, pr_high = high, pr_center = round2 price\<rparr>)"

subsection \<open>Candidates\<close>

record drive_stats =
  distance_m :: real
  duration_s :: real

datatype reason = Strict | Fallback

record candidate =
  drop_c :: LatLng
  walkMin :: int
  drive :: drive_stats
  routeIdx :: string
  surge :: real
  reason :: reason

subsection \<open>Route-tail sampling\<close>

definition TAIL_FRACTION :: real where
  "TAIL_FRACTION = 0.22"

definition SAMPLE_COUNT :: nat where
  "SAMPLE_COUNT = 16"

text \<open>
  One turn of the sampling loop. \<^verbatim>\<open>slice[idx]\<close> is \<^verbatim>\<open>undefined\<close> when \<open>idx\<close> is not an
  index of \<open>slice\<close>, and destructuring \<^verbatim>\<open>undefined\<close> throws a \<^verbatim>\<open>TypeError\<close>.
\<close>

definition samplePoint :: "(real \<times> real) list \<Rightarrow> nat \<Rightarrow> nat \<Rightarrow> error + LatLng option" where
  "samplePoint slice cnt i =
     (let t = real i / (real cnt + 1);
          idx = min (int (length slice) - 1) \<lfloor>t * (real (length slice) - 1)\<rfloor>
      in if 0 \<le> idx \<and> idx < int (length slice)
         then (case slice ! nat idx of (x, y) \<Rightarrow> Inr (Some \<lparr>lat = y, lng = x\<rparr>))
         else Inl TypeError)"

definition key5 :: "LatLng \<Rightarrow> (bool \<times> int) \<times> (bool \<times> int)" where
  "key5 p = (toFixed 5 (lat p), toFixed 5 (lng p))"

fun dedupe :: "((bool \<times> int) \<times> (bool \<times> int)) set \<Rightarrow> LatLng list \<Rightarrow> LatLng list" where
  "dedupe seen [] = []"
| "dedupe seen (p # ps) =
     (if key5 p \<in> seen then dedupe seen ps else p # dedupe (insert (key5 p) seen) ps)"

definition sampleTail :: "(real \<times> real) list \<Rightarrow> nat \<Rightarrow> real \<Rightarrow> error + LatLng list" where
  "sampleTail cs cnt fraction =
     (if cs = [] then Inr []
      else
        let n = length cs;
            startIdx = max 0 (\<lfloor>real n * (1 - fraction)\<rfloor> - 1);
            slice = js_slice cs startIdx (int n - 1)
        in case forPush (samplePoint slice cnt) [1 ..< cnt + 1] of
             Inl e \<Rightarrow> Inl e
           | Inr out \<Rightarrow> Inr (dedupe {} out))"

subsection \<open>Tuning constants\<close>

text \<open>The four thresholds of the strict pass, gathered so that they can be varied.\<close>

record tuning =
  DIST_FACTOR :: real
  TIME_FACTOR :: real
  PCT_IMPROVE :: real
  ABS_IMPROVE_MIN :: real

definition TUNING :: tuning where
  "TUNING = \<lparr>DIST_FACTOR = 0.88, TIME_FACTOR = 0.88, PCT_IMPROVE = 0.12, ABS_IMPROVE_MIN = 1.75\<rparr>"

definition RELAX_DIST :: real where
  "RELAX_DIST = 0.97"

definition RELAX_TIME :: real where
  "RELAX_TIME = 0.97"

definition MIN_SUGGESTIONS :: nat where
  "MIN_SUGGESTIONS = 2"

definition MAX_SUGGESTIONS :: nat where
  "MAX_SUGGESTIONS = 4"

subsection \<open>The discovery request\<close>

text \<open>
  \<^verbatim>\<open>mapboxWalk\<close> and \<^verbatim>\<open>mapboxDrive\<close>: the first route of the answer, \<open>None\<close> for
  \<^verbatim>\<open>null\<close> (a response that is not OK, or no route), an exception when the fetch rejects.
\<close>

type_synonym provider = "LatLng \<Rightarrow> LatLng \<Rightarrow> error + route_stats option"

text \<open>The state the candidate effect of \<^verbatim>\<open>Page\<close> reads; \<open>dest\<close> is the state variable \<^verbatim>\<open>drop\<close>.\<close>

record request =
  pickup :: "LatLng option"
  dest :: "LatLng option"
  radiusM :: real
  regularRoutes :: "RouteGeo list"
  altRoutes :: "RouteGeo list"
  showRegular :: bool
  showAlternates :: bool
  surgeProxy :: real
  mapboxWalk :: provider
  mapboxDrive :: provider

definition visibleOf :: "request \<Rightarrow> RouteGeo list" where
  "visibleOf q =
     (if showRegular q then regularRoutes q else []) @ (if showAlternates q then altRoutes q else [])"

definition bestRegOf :: "request \<Rightarrow> RouteGeo option" where
  "bestRegOf q =
     (case sort_cmp (\<lambda>a b. duration a - duration b) (regularRoutes q) of
        [] \<Rightarrow> None
      | b # _ \<Rightarrow> Some b)"

text \<open>\<^verbatim>\<open>{ lat: r.coords.at(-1)?.[1] ?? 0, lng: r.coords.at(-1)?.[0] ?? 0 }\<close>\<close>

definition lastPoint :: "RouteGeo \<Rightarrow> LatLng" where
  "lastPoint r =
     (if coords r = [] then \<lparr>lat = 0, lng = 0\<rparr>
      else \<lparr>lat = snd (last (coords r)), lng = fst (last (coords r))\<rparr>)"

definition bestPriceOf :: "request \<Rightarrow> RouteGeo \<Rightarrow> real" where
  "bestPriceOf q bestReg =
     center (modeledPriceUSD (distance bestReg) (duration bestReg) (surgeProxy q)
       (zonePenaltyUSD (lastPoint bestReg)))"

definition priceOf :: "request \<Rightarrow> candidate \<Rightarrow> real" where
  "priceOf q a =
     center (modeledPriceUSD (distance_m (drive a)) (duration_s (drive a)) (surgeProxy q)
       (zonePenaltyUSD (drop_c a)))"

subsection \<open>Evaluating one sampled point\<close>

text \<open>
  The opening lines that the three passes share: the radius cap, the walking query with
  its straight-line fallback, the driving query.
\<close>

definition probe :: "request \<Rightarrow> LatLng \<Rightarrow> LatLng \<Rightarrow> LatLng \<Rightarrow> error + (int \<times> route_stats) option" where
  "probe q pu dst p =
     (let radial = haversineMeters p dst
      in if radial > radiusM q \<or> radial < 12 then Inr None
         else
           (case mapboxWalk q p dst of
              Inl e \<Rightarrow> Inl e
            | Inr wk \<Rightarrow>
                let wm = (case wk of
                            Some w \<Rightarrow> js_round (duration w / 60)
                          | None \<Rightarrow> metersToMinWalk radial)
                in (case mapboxDrive q pu p of
                      Inl e \<Rightarrow> Inl e
                    | Inr None \<Rightarrow> Inr None
                    | Inr (Some drv) \<Rightarrow> Inr (Some (wm, drv)))))"

definition mkCandidate :: "request \<Rightarrow> RouteGeo \<Rightarrow> LatLng \<Rightarrow> int \<Rightarrow> route_stats \<Rightarrow> reason \<Rightarrow> candidate" where
  "mkCandidate q r p wm drv rsn =
     \<lparr>drop_c = p, walkMin = wm,
      drive = \<lparr>distance_m = distance drv, duration_s = duration drv\<rparr>,
      routeIdx = label r, surge = surgeProxy q, reason = rsn\<rparr>"

definition strictPoint ::
  "tuning \<Rightarrow> request \<Rightarrow> LatLng \<Rightarrow> LatLng \<Rightarrow> real \<Rightarrow> RouteGeo \<Rightarrow> LatLng \<Rightarrow> error + candidate option" where
  "strictPoint tun q pu dst bestPrice r p =
     (case probe q pu dst p of
        Inl e \<Rightarrow> Inl e
      | Inr None \<Rightarrow> Inr None
      | Inr (Some (wm, drv)) \<Rightarrow>
          let distOK = (distance drv \<le> DIST_FACTOR tun * distance r);
              timeOK = (duration drv \<le> TIME_FACTOR tun * duration r)
          in if \<not> (distOK \<and> timeOK) then Inr None
             else
               let candPenalty = zonePenaltyUSD p;
                   candPrice = center (modeledPriceUSD (distance drv) (duration drv) (surgeProxy q) candPenalty);
                   absImprove = bestPrice - candPrice;
                   pctImprove = absImprove / bestPrice
               in if absImprove < ABS_IMPROVE_MIN tun then Inr None
                  else if pctImprove < PCT_IMPROVE tun then Inr None
                  else Inr (Some (mkCandidate q r p wm drv Strict)))"

definition relaxedPoint ::
  "request \<Rightarrow> LatLng \<Rightarrow> LatLng \<Rightarrow> RouteGeo \<Rightarrow> LatLng \<Rightarrow> error + candidate option" where
  "relaxedPoint q pu dst r p =
     (case probe q pu dst p of
        Inl e \<Rightarrow> Inl e
      | Inr None \<Rightarrow> Inr None
      | Inr (Some (wm, drv)) \<Rightarrow>
          let distOK = (distance drv \<le> RELAX_DIST * distance r);
              timeOK = (duration drv \<le> RELAX_TIME * duration r)
          in if \<not> (distOK \<and> timeOK) then Inr None
             else Inr (Some (mkCandidate q r p wm drv Fallback)))"

definition closestPoint ::
  "request \<Rightarrow> LatLng \<Rightarrow> LatLng \<Rightarrow> RouteGeo \<Rightarrow> LatLng \<Rightarrow> error + candidate option" where
  "closestPoint q pu dst r p =
     (case probe q pu dst p of
        Inl e \<Rightarrow> Inl e
      | Inr None \<Rightarrow> Inr None
      | Inr (Some (wm, drv)) \<Rightarrow> Inr (Some (mkCandidate q r p wm drv Fallback)))"

text \<open>One pass over the visible routes: sample the tail of each route, evaluate each point.\<close>

fun tierAll :: "(RouteGeo \<Rightarrow> LatLng \<Rightarrow> error + candidate option) \<Rightarrow> RouteGeo list \<Rightarrow> error + candidate list" where
  "tierAll f [] = Inr []"
| "tierAll f (r # rs) =
     (case sampleTail (coords r) SAMPLE_COUNT TAIL_FRACTION of
        Inl e \<Rightarrow> Inl e
      | Inr tailPts \<Rightarrow>
          (case forPush (f r) tailPts of
             Inl e \<Rightarrow> Inl e
           | Inr cs \<Rightarrow>
               (case tierAll f rs of
                  Inl e \<Rightarrow> Inl e
                | Inr ds \<Rightarrow> Inr (cs @ ds))))"

subsection \<open>Ordering, capping, merging\<close>

definition strictCmp :: "request \<Rightarrow> real \<Rightarrow> candidate \<Rightarrow> candidate \<Rightarrow> real" where
  "strictCmp q bestPrice a b =
     (let aPrice = priceOf q a; bPrice = priceOf q b;
          aSave = bestPrice - aPrice; bSave = bestPrice - bPrice
      in if bSave \<noteq> aSave then bSave - aSave
         else (distance_m (drive a) * 1.5 + duration_s (drive a))
                - (distance_m (drive b) * 1.5 + duration_s (drive b)))"

definition relaxedCmp :: "request \<Rightarrow> candidate \<Rightarrow> candidate \<Rightarrow> real" where
  "relaxedCmp q a b = priceOf q a - priceOf q b"

definition closestCmp :: "request \<Rightarrow> LatLng \<Rightarrow> candidate \<Rightarrow> candidate \<Rightarrow> real" where
  "closestCmp q dst a b =
     (let ra = haversineMeters (drop_c a) dst; rb = haversineMeters (drop_c b) dst
      in if ra \<noteq> rb then ra - rb else priceOf q a - priceOf q b)"

text \<open>The strict cap: at most two per route label, and stop at \<^verbatim>\<open>MAX_SUGGESTIONS\<close>.\<close>

fun capLoop :: "(string \<rightharpoonup> nat) \<Rightarrow> candidate list \<Rightarrow> candidate list \<Rightarrow> candidate list" where
  "capLoop perRoute capped [] = capped"
| "capLoop perRoute capped (c # cs) =
     (let n = (case perRoute (routeIdx c) of None \<Rightarrow> 0 | Some k \<Rightarrow> k) + 1;
          perRoute' = perRoute(routeIdx c \<mapsto> n);
          capped' = (if n \<le> 2 then capped @ [c] else capped)
      in if length capped' \<ge> MAX_SUGGESTIONS then capped' else capLoop perRoute' capped' cs)"

definition candKey :: "candidate \<Rightarrow> (bool \<times> int) \<times> (bool \<times> int)" where
  "candKey c = (toFixed 6 (lat (drop_c c)), toFixed 6 (lng (drop_c c)))"

text \<open>The merge of the relaxed and of the closest pass: skip a key already there, push, stop at the limit.\<close>

fun mergeLoop ::
  "nat \<Rightarrow> ((bool \<times> int) \<times> (bool \<times> int)) set \<Rightarrow> candidate list \<Rightarrow> candidate list \<Rightarrow> candidate list" where
  "mergeLoop limit have results [] = results"
| "mergeLoop limit have results (c # cs) =
     (if candKey c \<in> have then mergeLoop limit have results cs
      else
        let results' = results @ [c]
        in if length results' \<ge> limit then results'
           else mergeLoop limit (insert (candKey c) have) results' cs)"

subsection \<open>The three passes and the pipeline\<close>

definition strictAll :: "tuning \<Rightarrow> request \<Rightarrow> LatLng \<Rightarrow> LatLng \<Rightarrow> real \<Rightarrow> error + candidate list" where
  "strictAll tun q pu dst bestPrice = tierAll (strictPoint tun q pu dst bestPrice) (visibleOf q)"

definition strictCapped :: "request \<Rightarrow> real \<Rightarrow> candidate list \<Rightarrow> candidate list" where
  "strictCapped q bestPrice allStrict = capLoop Map.empty [] (sort_cmp (strictCmp q bestPrice) allStrict)"

definition relaxedAll :: "request \<Rightarrow> LatLng \<Rightarrow> LatLng \<Rightarrow> error + candidate list" where
  "relaxedAll q pu dst = tierAll (relaxedPoint q pu dst) (visibleOf q)"

definition closestAll :: "request \<Rightarrow> LatLng \<Rightarrow> LatLng \<Rightarrow> error + candidate list" where
  "closestAll q pu dst = tierAll (closestPoint q pu dst) (visibleOf q)"

definition relaxedPass :: "request \<Rightarrow> LatLng \<Rightarrow> LatLng \<Rightarrow> candidate list \<Rightarrow> error + candidate list" where
  "relaxedPass q pu dst results =
     (if length results < MIN_SUGGESTIONS then
        (case relaxedAll q pu dst of
           Inl e \<Rightarrow> Inl e
         | Inr allRelaxed \<Rightarrow>
             Inr (mergeLoop (max MIN_SUGGESTIONS MAX_SUGGESTIONS) (candKey ` set results) results
                    (sort_cmp (relaxedCmp q) allRelaxed)))
      else Inr results)"

definition closestPass :: "request \<Rightarrow> LatLng \<Rightarrow> LatLng \<Rightarrow> candidate list \<Rightarrow> error + candidate list" where
  "closestPass q pu dst results =
     (if length results < MIN_SUGGESTIONS then
        (case closestAll q pu dst of
           Inl e \<Rightarrow> Inl e
         | Inr allClosest \<Rightarrow>
             Inr (mergeLoop MIN_SUGGESTIONS (candKey ` set results) results
                    (sort_cmp (closestCmp q dst) allClosest)))
      else Inr results)"

text \<open>
  The candidate effect of \<^verbatim>\<open>Page\<close>: the list it hands to \<^verbatim>\<open>setCandidates\<close>, or the
  exception that rejects its promise. The \<^verbatim>\<open>alive\<close> flag, which drops the list of a run
  that a newer one has superseded, is left out.
\<close>

definition discoverWith :: "tuning \<Rightarrow> request \<Rightarrow> error + candidate list" where
  "discoverWith tun q =
     (case pickup q of
        None \<Rightarrow> Inr []
      | Some pu \<Rightarrow>
          (case dest q of
             None \<Rightarrow> Inr []
           | Some dst \<Rightarrow>
               (case bestRegOf q of
                  None \<Rightarrow> Inr []
                | Some bestReg \<Rightarrow>
                    let bestPrice = bestPriceOf q bestReg
                    in (case strictAll tun q pu dst bestPrice of
                          Inl e \<Rightarrow> Inl e
                        | Inr allStrict \<Rightarrow>
                            (case relaxedPass q pu dst (strictCapped q bestPrice allStrict) of
                               Inl e \<Rightarrow> Inl e
                             | Inr results \<Rightarrow>
                                 (case closestPass q pu dst results of
                                    Inl e \<Rightarrow> Inl e
                                  | Inr results' \<Rightarrow> Inr (take MAX_SUGGESTIONS results')))))))"

definition discover :: "request \<Rightarrow> error + candidate list" where
  "discover q = discoverWith TUNING q"

subsection \<open>The route sets\<close>

text \<open>
  What the route effect of \<^verbatim>\<open>Page\<close> stores from the answer of the directions provider
  (\<open>None\<close> for \<^verbatim>\<open>null\<close>): the routes sorted by duration, the first \<open>REG_MAX\<close> of them as
  regular routes \<^verbatim>\<open>Regular A\<close>, \<^verbatim>\<open>Regular B\<close>, the next \<open>ALT_MAX\<close> as alternates
  \<^verbatim>\<open>Alternate 1\<close> to \<^verbatim>\<open>Alternate 3\<close>. The surge proxy it also stores is a field of the
  request here.
\<close>

definition REG_MAX :: nat where
  "REG_MAX = 2"

definition ALT_MAX :: nat where
  "ALT_MAX = 3"

definition regularLabel :: "nat \<Rightarrow> string" where
  "regularLabel i = ''Regular '' @ [char_of (65 + i)]"

definition alternateLabel :: "nat \<Rightarrow> string" where
  "alternateLabel i = ''Alternate '' @ [char_of (48 + (i + 1))]"

fun labelled :: "(nat \<Rightarrow> string) \<Rightarrow> nat \<Rightarrow> route_stats list \<Rightarrow> RouteGeo list" where
  "labelled f i [] = []"
| "labelled f i (r # rs) =
     \<lparr>distance = distance r, duration = duration r, coords = coords r, label = f i\<rparr> # labelled f (Suc i) rs"

definition routeSets :: "route_stats list option \<Rightarrow> RouteGeo list \<times> RouteGeo list" where
  "routeSets answer =
     (case answer of
        None \<Rightarrow> ([], [])
      | Some routesTraffic \<Rightarrow>
          if routesTraffic = [] then ([], [])
          else
            let sorted = sort_cmp (\<lambda>a b. duration a - duration b) routesTraffic;
                regs = labelled regularLabel 0 (js_slice sorted 0 (int REG_MAX));
                altsFromAPI = labelled alternateLabel 0 (js_slice sorted (int REG_MAX) (int (REG_MAX + ALT_MAX)))
            in (regs, js_slice altsFromAPI 0 (int ALT_MAX)))"

subsection \<open>The older two-pass pipeline of \<^verbatim>\<open>src/app/page.tsx\<close>\<close>

text \<open>
  The body of the point loop of \<^verbatim>\<open>build(strict)\<close> in the second variant of
  \<^verbatim>\<open>page.tsx\<close>, with the constants of that file (0.90, 0.90 and 0.08 for the strict
  pass, 0.98, 0.98 and 0.00 for the loose one). Its price model reads the clock: \<open>w1\<close> and
  \<open>w2\<close> are the worlds of its two calls. The result is the pushed entry: the point, the
  walking minutes and the drive.
\<close>

definition buildPoint ::
  "bool \<Rightarrow> world \<Rightarrow> world \<Rightarrow> request \<Rightarrow> LatLng \<Rightarrow> LatLng \<Rightarrow> RouteGeo \<Rightarrow> LatLng
     \<Rightarrow> error + (LatLng \<times> int \<times> route_stats) option" where
  "buildPoint strict w1 w2 q pu dst r p =
     (if haversineMeters p dst < 12 then Inr None
      else
        (case mapboxWalk q p dst of
           Inl e \<Rightarrow> Inl e
         | Inr wk \<Rightarrow>
             let wm = (case wk of
                         Some w \<Rightarrow> js_round (duration w / 60)
                       | None \<Rightarrow> metersToMinWalk (haversineMeters p dst))
             in if wm > metersToMinWalk (radiusM q) + 1 then Inr None
                else
                  (case mapboxDrive q pu p of
                     Inl e \<Rightarrow> Inl e
                   | Inr None \<Rightarrow> Inr None
                   | Inr (Some drv) \<Rightarrow>
                       let distOK = (distance drv \<le> (if strict then 0.90 else 0.98) * distance r);
                           timeOK = (duration drv \<le> (if strict then 0.90 else 0.98) * duration r)
                       in if \<not> (distOK \<and> timeOK) then Inr None
                          else
                            let baseModel = center (modeledPriceUSD_page w1 (distance r) (duration r));
                                candModel = center (modeledPriceUSD_page w2 (distance drv) (duration drv));
                                cheaper = ((baseModel - candModel) / baseModel
                                             \<ge> (if strict then 0.08 else 0.00))
                            in if \<not> cheaper then Inr None else Inr (Some (p, wm, drv)))))"

subsection \<open>A notion for the proofs\<close>

text \<open>
  Not a function of the program: a candidate is admitted when some visible route and some
  successful run of the shared opening lines at its drop point produce it.
\<close>

definition admitted :: "request \<Rightarrow> LatLng \<Rightarrow> LatLng \<Rightarrow> candidate \<Rightarrow> bool" where
  "admitted q pu dst c \<longleftrightarrow>
     (\<exists>r \<in> set (visibleOf q). \<exists>wm drv rsn.
        probe q pu dst (drop_c c) = Inr (Some (wm, drv)) \<and> c = mkCandidate q r (drop_c c) wm drv rsn)"

subsection \<open>Example requests\<close>

text \<open>
  Concrete requests on which the pipeline is evaluated below. The destination is the point
  (0, 0), every sampled point lies on its meridian (so that its distance to the destination
  is its latitude times \<open>6371000 \<pi> / 180\<close>), the radius is 500 m, every route is 10 km and
  20 minutes long, and a provider answers every query alike.
\<close>

definition ex_dst :: LatLng where
  "ex_dst = \<lparr>lat = 0, lng = 0\<rparr>"

definition ex_pu :: LatLng where
  "ex_pu = \<lparr>lat = 1/10, lng = 0\<rparr>"

definition ex_p :: "real \<Rightarrow> LatLng" where
  "ex_p y = \<lparr>lat = y, lng = 0\<rparr>"

definition ex_route :: "string \<Rightarrow> (real \<times> real) list \<Rightarrow> RouteGeo" where
  "ex_route lbl cs = \<lparr>distance = 10000, duration = 1200, coords = cs, label = lbl\<rparr>"

definition no_route :: provider where
  "no_route = (\<lambda>a b. Inr None)"

definition const_route :: "real \<Rightarrow> real \<Rightarrow> provider" where
  "const_route d t = (\<lambda>a b. Inr (Some \<lparr>distance = d, duration = t, coords = []\<rparr>))"

definition ex_request :: "RouteGeo list \<Rightarrow> provider \<Rightarrow> provider \<Rightarrow> request" where
  "ex_request regs walk drv =
     \<lparr>pickup = Some ex_pu, dest = Some ex_dst, radiusM = 500, regularRoutes = regs, altRoutes = [],
      showRegular = True, showAlternates = True, surgeProxy = 1, mapboxWalk = walk, mapboxDrive = drv\<rparr>"

text \<open>A geometry of three points: its tail sample is the middle point, at latitude \<open>y\<close>.\<close>

definition ex_short :: "real \<Rightarrow> (real \<times> real) list" where
  "ex_short y = [(0, 1/10), (0, y), (0, 0)]"

text \<open>A geometry of fourteen points: its tail samples are its tenth, eleventh and twelfth point.\<close>

definition ex_long :: "(real \<times> real) list" where
  "ex_long = [(0, 1/10), (0, 9/100), (0, 8/100), (0, 7/100), (0, 6/100), (0, 5/100), (0, 4/100),
              (0, 3/100), (0, 2/100), (0, 3/1000), (0, 1/500), (0, 1/1000), (0, 1/2000), (0, 0)]"

definition ex_cand :: "string \<Rightarrow> real \<Rightarrow> int \<Rightarrow> real \<Rightarrow> real \<Rightarrow> reason \<Rightarrow> candidate" where
  "ex_cand l y wm d t rsn =
     \<lparr>drop_c = ex_p y, walkMin = wm, drive = \<lparr>distance_m = d, duration_s = t\<rparr>,
      routeIdx = l, surge = 1, reason = rsn\<rparr>"

abbreviation wm1 :: int where
  "wm1 \<equiv> metersToMinWalk (haversineMeters (ex_p (1/1000)) ex_dst)"

abbreviation wm2 :: int where
  "wm2 \<equiv> metersToMinWalk (haversineMeters (ex_p (1/500)) ex_dst)"

abbreviation wm3 :: int where
  "wm3 \<equiv> metersToMinWalk (haversineMeters (ex_p (3/1000)) ex_dst)"

text \<open>The latitude at exactly 12 m from the destination.\<close>

definition ex_floor_lat :: real where
  "ex_floor_lat = 2160 / (6371000 * pi)"

text \<open>One route, one sampled point about 111 m from the destination, no walking route, a clearly cheaper drive.\<close>

definition ex_one :: request where
  "ex_one = ex_request [ex_route ''Regular A'' (ex_short (1/1000))] no_route (const_route 8000 1000)"

text \<open>The same with the sampled point at exactly 12 m.\<close>

definition ex_floor :: request where
  "ex_floor = ex_request [ex_route ''Regular A'' (ex_short ex_floor_lat)] no_route (const_route 8000 1000)"

text \<open>The same as \<open>ex_one\<close> with a walking route of 3 km and one hour from the sampled point.\<close>

definition ex_longwalk :: request where
  "ex_longwalk =
     ex_request [ex_route ''Regular A'' (ex_short (1/1000))] (const_route 3000 3600) (const_route 8000 1000)"

text \<open>Two regular routes that share their tail.\<close>

definition ex_twin :: request where
  "ex_twin =
     ex_request [ex_route ''Regular A'' (ex_short (1/1000)), ex_route ''Regular B'' (ex_short (1/1000))]
       no_route (const_route 8000 1000)"

text \<open>One long route; the drive to a sampled point is 5% shorter than the route: relaxed, not strict.\<close>

definition ex_relaxed :: request where
  "ex_relaxed = ex_request [ex_route ''Regular A'' ex_long] no_route (const_route 9500 1150)"

text \<open>One long route; the drive to a sampled point is 1% shorter than the route: neither strict nor relaxed.\<close>

definition ex_closest :: request where
  "ex_closest = ex_request [ex_route ''Regular A'' ex_long] no_route (const_route 9900 1190)"


text \<open>The same route and points; the drive to each sampled point is clearly cheaper: three strict candidates.\<close>

definition ex_strict3 :: request where
  "ex_strict3 = ex_request [ex_route ''Regular A'' ex_long] no_route (const_route 8000 1000)"

text \<open>One route whose geometry is a single point.\<close>

definition ex_point :: request where
  "ex_point = ex_request [ex_route ''Regular A'' [(0, 0)]] no_route (const_route 8000 1000)"

text \<open>Strict thresholds tighter than \<open>TUNING\<close> in all four places.\<close>

definition ex_tight :: tuning where
  "ex_tight = \<lparr>DIST_FACTOR = 0.80, TIME_FACTOR = 0.80, PCT_IMPROVE = 0.20, ABS_IMPROVE_MIN = 3\<rparr>"

subsection \<open>The fare models as syntax\<close>

text \<open>
  What the body of a function reads cannot be told from the function it computes. The
  three price models are therefore also given as syntax, statement by statement:
  expressions over the parameters and the constants of the body, with the two reads of
  the clock, \<^verbatim>\<open>new Date().getHours()\<close> and \<^verbatim>\<open>Date.now()\<close>, and the draw of a random
  number, \<^verbatim>\<open>Math.random()\<close>, as expressions of their own.
\<close>

datatype expr =
    Num real
  | Var string
  | GetHours
  | DateNow
  | MathRandom
  | Add expr expr
  | Sub expr expr
  | Mul expr expr
  | Div expr expr
  | MathMax expr expr
  | MathSin expr
  | MathFloor expr
  | Cond bexpr expr expr
and bexpr =
    BVar string
  | Truthy expr
  | Ge expr expr
  | Le expr expr
  | And bexpr bexpr
  | Or bexpr bexpr

text \<open>A \<^verbatim>\<open>const\<close> declaration of a number or of a boolean.\<close>

datatype stmt = Const string expr | ConstB string bexpr

text \<open>
  A function that returns \<^verbatim>\<open>{ low, high, center }\<close>: its parameters, each with its
  default value if it has one, the declarations of its body, the three expressions of
  its \<^verbatim>\<open>return\<close>.
\<close>

record fundef =
  fn_params :: "(string \<times> real option) list"
  fn_body :: "stmt list"
  fn_low :: expr
  fn_high :: expr
  fn_center :: expr

text \<open>
  The value of an expression in a world, under the numbers and the booleans bound so
  far; \<open>rnd\<close> is what the random number generator returns. \<^verbatim>\<open>Truthy\<close> is the test that
  \<^verbatim>\<open>x ? \<dots> : \<dots>\<close> makes of a number.
\<close>

primrec eval :: "world \<Rightarrow> real \<Rightarrow> (string \<Rightarrow> real) \<Rightarrow> (string \<Rightarrow> bool) \<Rightarrow> expr \<Rightarrow> real"
  and beval :: "world \<Rightarrow> real \<Rightarrow> (string \<Rightarrow> real) \<Rightarrow> (string \<Rightarrow> bool) \<Rightarrow> bexpr \<Rightarrow> bool" where
  "eval w rnd env benv (Num x) = x"
| "eval w rnd env benv (Var v) = env v"
| "eval w rnd env benv GetHours = real (hours w)"
| "eval w rnd env benv DateNow = now_ms w"
| "eval w rnd env benv MathRandom = rnd"
| "eval w rnd env benv (Add a b) = eval w rnd env benv a + eval w rnd env benv b"
| "eval w rnd env benv (Sub a b) = eval w rnd env benv a - eval w rnd env benv b"
| "eval w rnd env benv (Mul a b) = eval w rnd env benv a * eval w rnd env benv b"
| "eval w rnd env benv (Div a b) = eval w rnd env benv a / eval w rnd env benv b"
| "eval w rnd env benv (MathMax a b) = max (eval w rnd env benv a) (eval w rnd env benv b)"
| "eval w rnd env benv (MathSin a) = sin (eval w rnd env benv a)"
| "eval w rnd env benv (MathFloor a) = of_int \<lfloor>eval w rnd env benv a\<rfloor>"
| "eval w rnd env benv (Cond c a b) = (if beval w rnd env benv c then eval w rnd env benv a else eval w rnd env benv b)"
| "beval w rnd env benv (BVar v) = benv v"
| "beval w rnd env benv (Truthy a) = (eval w rnd env benv a \<noteq> 0)"
| "beval w rnd env benv (Ge a b) = (eval w rnd env benv a \<ge> eval w rnd env benv b)"
| "beval w rnd env benv (Le a b) = (eval w rnd env benv a \<le> eval w rnd env benv b)"
| "beval w rnd env benv (And c d) = (beval w rnd env benv c \<and> beval w rnd env benv d)"
| "beval w rnd env benv (Or c d) = (beval w rnd env benv c \<or> beval w rnd env benv d)"

text \<open>
  What a call can read besides its arguments and the clock: the variables of the
  enclosing scopes, numbers and booleans, and the random number generator.
\<close>

record globals =
  gnum :: "string \<Rightarrow> real"
  gbool :: "string \<Rightarrow> bool"
  grandom :: real

text \<open>The declarations of a body, in order, and then its \<^verbatim>\<open>return\<close>.\<close>

fun run :: "world \<Rightarrow> real \<Rightarrow> stmt list \<Rightarrow> expr \<times> expr \<times> expr \<Rightarrow> (string \<Rightarrow> real) \<Rightarrow> (string \<Rightarrow> bool) \<Rightarrow> FareQuote" where
  "run w rnd [] (l, h, c) env benv =
     \<lparr>low = eval w rnd env benv l, high = eval w rnd env benv h, center = eval w rnd env benv c\<rparr>"
| "run w rnd (Const v e # ss) ret env benv = run w rnd ss ret (env(v := eval w rnd env benv e)) benv"
| "run w rnd (ConstB v b # ss) ret env benv = run w rnd ss ret env (benv(v := beval w rnd env benv b))"

text \<open>
  The parameters bound to the arguments of a call, over the variables of the enclosing
  scopes. A parameter whose argument is missing takes its default value. When it has
  none it is \<^verbatim>\<open>undefined\<close>, which reads as 0 here: the one such parameter that is called
  without its argument below, the optional \<^verbatim>\<open>duration_s\<close> of the route handler, is only
  tested for truth before it is used, and \<^verbatim>\<open>undefined\<close> fails that test as 0 does.
\<close>

fun bind :: "(string \<Rightarrow> real) \<Rightarrow> (string \<times> real option) list \<Rightarrow> real list \<Rightarrow> string \<Rightarrow> real" where
  "bind g [] as = g"
| "bind g ((x, dflt) # xs) [] = (bind g xs [])(x := (case dflt of Some d \<Rightarrow> d | None \<Rightarrow> 0))"
| "bind g ((x, dflt) # xs) (a # as) = (bind g xs as)(x := a)"

text \<open>A call of the function in world \<open>w\<close>, with the variables \<open>g\<close> around it.\<close>

definition call :: "world \<Rightarrow> globals \<Rightarrow> fundef \<Rightarrow> real list \<Rightarrow> FareQuote" where
  "call w g f args =
     run w (grandom g) (fn_body f) (fn_low f, fn_high f, fn_center f)
       (bind (gnum g) (fn_params f) args) (gbool g)"

text \<open>Whether a read of the clock occurs in an expression, in a declaration, in a function.\<close>

primrec reads_clock :: "expr \<Rightarrow> bool" and breads_clock :: "bexpr \<Rightarrow> bool" where
  "reads_clock (Num x) = False"
| "reads_clock (Var v) = False"
| "reads_clock GetHours = True"
| "reads_clock DateNow = True"
| "reads_clock MathRandom = False"
| "reads_clock (Add a b) = (reads_clock a \<or> reads_clock b)"
| "reads_clock (Sub a b) = (reads_clock a \<or> reads_clock b)"
| "reads_clock (Mul a b) = (reads_clock a \<or> reads_clock b)"
| "reads_clock (Div a b) = (reads_clock a \<or> reads_clock b)"
| "reads_clock (MathMax a b) = (reads_clock a \<or> reads_clock b)"
| "reads_clock (MathSin a) = reads_clock a"
| "reads_clock (MathFloor a) = reads_clock a"
| "reads_clock (Cond c a b) = (breads_clock c \<or> reads_clock a \<or> reads_clock b)"
| "breads_clock (BVar v) = False"
| "breads_clock (Truthy a) = reads_clock a"
| "breads_clock (Ge a b) = (reads_clock a \<or> reads_clock b)"
| "breads_clock (Le a b) = (reads_clock a \<or> reads_clock b)"
| "breads_clock (And c d) = (breads_clock c \<or> breads_clock d)"
| "breads_clock (Or c d) = (breads_clock c \<or> breads_clock d)"

fun stmt_reads_clock :: "stmt \<Rightarrow> bool" where
  "stmt_reads_clock (Const v e) = reads_clock e"
| "stmt_reads_clock (ConstB v c) = breads_clock c"

definition fun_reads_clock :: "fundef \<Rightarrow> bool" where
  "fun_reads_clock f \<longleftrightarrow>
     list_ex stmt_reads_clock (fn_body f) \<or> reads_clock (fn_low f) \<or> reads_clock (fn_high f)
       \<or> reads_clock (fn_center f)"

text \<open>
  Whether every variable that is read is a parameter or a constant declared before in
  the body, and no random number is drawn: \<open>ns\<close> are the numbers and \<open>bs\<close> the booleans
  declared so far.
\<close>

primrec locals_only :: "string set \<Rightarrow> string set \<Rightarrow> expr \<Rightarrow> bool"
  and blocals_only :: "string set \<Rightarrow> string set \<Rightarrow> bexpr \<Rightarrow> bool" where
  "locals_only ns bs (Num x) = True"
| "locals_only ns bs (Var v) = (v \<in> ns)"
| "locals_only ns bs GetHours = True"
| "locals_only ns bs DateNow = True"
| "locals_only ns bs MathRandom = False"
| "locals_only ns bs (Add a b) = (locals_only ns bs a \<and> locals_only ns bs b)"
| "locals_only ns bs (Sub a b) = (locals_only ns bs a \<and> locals_only ns bs b)"
| "locals_only ns bs (Mul a b) = (locals_only ns bs a \<and> locals_only ns bs b)"
| "locals_only ns bs (Div a b) = (locals_only ns bs a \<and> locals_only ns bs b)"
| "locals_only ns bs (MathMax a b) = (locals_only ns bs a \<and> locals_only ns bs b)"
| "locals_only ns bs (MathSin a) = locals_only ns bs a"
| "locals_only ns bs (MathFloor a) = locals_only ns bs a"
| "locals_only ns bs (Cond c a b) = (blocals_only ns bs c \<and> locals_only ns bs a \<and> locals_only ns bs b)"
| "blocals_only ns bs (BVar v) = (v \<in> bs)"
| "blocals_only ns bs (Truthy a) = locals_only ns bs a"
| "blocals_only ns bs (Ge a b) = (locals_only ns bs a \<and> locals_only ns bs b)"
| "blocals_only ns bs (Le a b) = (locals_only ns bs a \<and> locals_only ns bs b)"
| "blocals_only ns bs (And c d) = (blocals_only ns bs c \<and> blocals_only ns bs d)"
| "blocals_only ns bs (Or c d) = (blocals_only ns bs c \<and> blocals_only ns bs d)"

fun body_locals_only :: "string set \<Rightarrow> string set \<Rightarrow> stmt list \<Rightarrow> expr \<times> expr \<times> expr \<Rightarrow> bool" where
  "body_locals_only ns bs [] (l, h, c) =
     (locals_only ns bs l \<and> locals_only ns bs h \<and> locals_only ns bs c)"
| "body_locals_only ns bs (Const v e # ss) ret =
     (locals_only ns bs e \<and> body_locals_only (insert v ns) bs ss ret)"
| "body_locals_only ns bs (ConstB v b # ss) ret =
     (blocals_only ns bs b \<and> body_locals_only ns (insert v bs) ss ret)"

definition fun_locals_only :: "fundef \<Rightarrow> bool" where
  "fun_locals_only f \<longleftrightarrow>
     body_locals_only (fst ` set (fn_params f)) {} (fn_body f) (fn_low f, fn_high f, fn_center f)"

text \<open>
  \<^verbatim>\<open>modeledPriceUSD(distance_m, duration_s, surge = 1.0, penaltyUSD = 0)\<close> of
  \<^verbatim>\<open>PageClient\<close>.
\<close>

definition PageClient_modeledPriceUSD :: fundef where
  "PageClient_modeledPriceUSD =
     \<lparr>fn_params = [(''distance_m'', None), (''duration_s'', None), (''surge'', Some 1.0),
                   (''penaltyUSD'', Some 0)],
      fn_body =
        [Const ''miles'' (Div (Var ''distance_m'') (Num 1609.34)),
         Const ''mins'' (Div (Var ''duration_s'') (Num 60)),
         Const ''base'' (Num 2.25), Const ''perMile'' (Num 1.50), Const ''perMin'' (Num 0.33),
         Const ''service'' (Num 1.2),
         Const ''est''
           (Add (Mul (Add (Add (Add (Var ''base'') (Mul (Var ''perMile'') (Var ''miles'')))
                               (Mul (Var ''perMin'') (Var ''mins'')))
                          (Var ''service''))
                     (Var ''surge''))
                (Var ''penaltyUSD'')),
         Const ''center'' (MathMax (Num 5) (Var ''est''))],
      fn_low = MathMax (Num 4.5) (Mul (Var ''center'') (Num 0.9)),
      fn_high = Mul (Var ''center'') (Num 1.12),
      fn_center = Var ''center''\<rparr>"

text \<open>The call \<^verbatim>\<open>seededRand(seed)\<close>, with the body of \<^verbatim>\<open>seededRand\<close> in its place.\<close>

definition seededRand_call :: "expr \<Rightarrow> expr" where
  "seededRand_call seed =
     Sub (Mul (MathSin seed) (Num 10000)) (MathFloor (Mul (MathSin seed) (Num 10000)))"

text \<open>\<^verbatim>\<open>modeledPriceUSD(distance_m, duration_s)\<close> of \<^verbatim>\<open>src/app/page.tsx\<close>.\<close>

definition page_modeledPriceUSD :: fundef where
  "page_modeledPriceUSD =
     \<lparr>fn_params = [(''distance_m'', None), (''duration_s'', None)],
      fn_body =
        [Const ''miles'' (Div (Var ''distance_m'') (Num 1609.34)),
         Const ''mins'' (Div (Var ''duration_s'') (Num 60)),
         Const ''base'' (Num 2.25), Const ''perMile'' (Num 1.50), Const ''perMin'' (Num 0.33),
         Const ''service'' (Num 1.2),
         Const ''h'' GetHours,
         ConstB ''rush''
           (Or (And (Ge (Var ''h'') (Num 7)) (Le (Var ''h'') (Num 9)))
               (And (Ge (Var ''h'') (Num 16)) (Le (Var ''h'') (Num 19)))),
         Const ''surge''
           (Cond (BVar ''rush'')
              (Add (Num 1.18) (Mul (seededRand_call (MathFloor (Div DateNow (Num 60000)))) (Num 0.35)))
              (Add (Num 1.0) (Mul (seededRand_call (MathFloor (Div DateNow (Num 120000)))) (Num 0.18)))),
         Const ''est''
           (Mul (Add (Add (Add (Var ''base'') (Mul (Var ''perMile'') (Var ''miles'')))
                          (Mul (Var ''perMin'') (Var ''mins'')))
                     (Var ''service''))
                (Var ''surge'')),
         Const ''center'' (MathMax (Num 5) (Var ''est''))],
      fn_low = MathMax (Num 4.5) (Mul (Var ''center'') (Num 0.9)),
      fn_high = Mul (Var ''center'') (Num 1.12),
      fn_center = Var ''center''\<rparr>"

text \<open>\<^verbatim>\<open>modeledPriceUSD(distance_m, duration_s?)\<close> of \<^verbatim>\<open>api/uber/estimates/route.ts\<close>.\<close>

definition route_modeledPriceUSD :: fundef where
  "route_modeledPriceUSD =
     \<lparr>fn_params = [(''distance_m'', None), (''duration_s'', None)],
      fn_body =
        [Const ''miles'' (Div (Var ''distance_m'') (Num 1609.34)),
         Const ''mins''
           (Cond (Truthy (Var ''duration_s'')) (Div (Var ''duration_s'') (Num 60))
              (MathMax (Num 5) (Mul (Var ''miles'') (Num 2.2)))),
         Const ''base'' (Num 2.25), Const ''perMile'' (Num 1.50), Const ''perMin'' (Num 0.33),
         Const ''service'' (Num 1.2),
         Const ''h'' GetHours,
         ConstB ''rush''
           (Or (And (Ge (Var ''h'') (Num 7)) (Le (Var ''h'') (Num 9)))
               (And (Ge (Var ''h'') (Num 16)) (Le (Var ''h'') (Num 19)))),
         Const ''rnd''
           (Add (Mul (MathSin (MathFloor (Div DateNow (Num 60000)))) (Num 0.5)) (Num 0.5)),
         Const ''surge''
           (Cond (BVar ''rush'') (Add (Num 1.15) (Mul (Var ''rnd'') (Num 0.35)))
              (Add (Num 1.0) (Mul (Var ''rnd'') (Num 0.2)))),
         Const ''center''
           (MathMax (Num 5)
              (Mul (Add (Add (Add (Var ''base'') (Mul (Var ''perMile'') (Var ''miles'')))
                             (Mul (Var ''perMin'') (Var ''mins'')))
                        (Var ''service''))
                   (Var ''surge'')))],
      fn_low = Mul (Var ''center'') (Num 0.9),
      fn_high = Mul (Var ''center'') (Num 1.15),
      fn_center = Var ''center''\<rparr>"

text \<open>Two readings of the clock on Monday 6 January 2025: eight o'clock and noon (UTC).\<close>

definition ex_eight :: world where
  "ex_eight = \<lparr>hours = 8, day = 1, now_ms = 1736150400000\<rparr>"

definition ex_noon :: world where
  "ex_noon = \<lparr>hours = 12, day = 1, now_ms = 1736164800000\<rparr>"

text \<open>
  Enclosing scopes in which every number is 0 and every boolean is false, with a random
  number generator that returns one half.
\<close>

definition ex_globals :: globals where
  "ex_globals = \<lparr>gnum = (\<lambda>v. 0), gbool = (\<lambda>v. False), grandom = 1/2\<rparr>"



section \<open>Properties\<close>

subsection \<open>Rounding\<close>

lemma js_round_mono: "x \<le> y \<Longrightarrow> js_round x \<le> js_round y"
  by (simp add: js_round_def floor_mono)

lemma round2_mono: "x \<le> y \<Longrightarrow> round2 x \<le> round2 y"
  by (simp add: round2_def js_round_mono divide_right_mono)

lemma round2_7: "round2 7 = 7"
  by (simp add: round2_def js_round_def)

lemma metersToMinWalk_mono: "x \<le> y \<Longrightarrow> metersToMinWalk x \<le> metersToMinWalk y"
  by (simp add: metersToMinWalk_def js_round_mono divide_right_mono)

subsection \<open>The fare models\<close>

text \<open>
  Claim C9. With distance 5000 m, duration 900 s, surge 1.0 and penalty 0 the fare model
  returns a centre that prints as 13.06, a low of 0.9 times the centre that prints as
  11.75 and a high of 1.12 times the centre that prints as 14.63 (two decimals,
  \<^verbatim>\<open>toFixed(2)\<close>).
\<close>

theorem modeledPriceUSD_scenario:
  "toFixed 2 (center (modeledPriceUSD 5000 900 1 0)) = (False, 1306) \<and>
   toFixed 2 (low (modeledPriceUSD 5000 900 1 0)) = (False, 1175) \<and>
   toFixed 2 (high (modeledPriceUSD 5000 900 1 0)) = (False, 1463) \<and>
   low (modeledPriceUSD 5000 900 1 0) = center (modeledPriceUSD 5000 900 1 0) * 0.9 \<and>
   high (modeledPriceUSD 5000 900 1 0) = center (modeledPriceUSD 5000 900 1 0) * 1.12"
  by (simp add: modeledPriceUSD_def toFixed_def Let_def)

text \<open>
  A body in which no read of the clock occurs, which reads no variable but its
  parameters and its own constants and which draws no random number computes the same
  in every world, in all enclosing scopes and whatever the random number generator
  returns.
\<close>

lemma eval_pure:
  assumes "\<forall>v \<in> ns. env1 v = env2 v" "\<forall>v \<in> bs. benv1 v = benv2 v"
  shows "locals_only ns bs e \<Longrightarrow> \<not> reads_clock e \<Longrightarrow> eval w1 r1 env1 benv1 e = eval w2 r2 env2 benv2 e"
    and "blocals_only ns bs c \<Longrightarrow> \<not> breads_clock c \<Longrightarrow> beval w1 r1 env1 benv1 c = beval w2 r2 env2 benv2 c"
  using assms by (induction e and c) auto

lemma run_pure:
  assumes "body_locals_only ns bs ss ret" "\<not> list_ex stmt_reads_clock ss"
    "\<not> reads_clock (fst ret)" "\<not> reads_clock (fst (snd ret))" "\<not> reads_clock (snd (snd ret))"
    "\<forall>v \<in> ns. env1 v = env2 v" "\<forall>v \<in> bs. benv1 v = benv2 v"
  shows "run w1 r1 ss ret env1 benv1 = run w2 r2 ss ret env2 benv2"
  using assms
proof (induction ss arbitrary: ns bs env1 env2 benv1 benv2)
  case Nil
  obtain l h c where ret: "ret = (l, h, c)" by (cases ret) auto
  from Nil show ?case
    unfolding ret using eval_pure(1)[OF Nil.prems(6,7), of _ w1 r1 w2 r2] by simp
next
  case (Cons a ss)
  show ?case
  proof (cases a)
    case (Const v e)
    with Cons.prems have e: "locals_only ns bs e" "\<not> reads_clock e"
      and b: "body_locals_only (insert v ns) bs ss ret" and r: "\<not> list_ex stmt_reads_clock ss" by simp_all
    have ev: "eval w1 r1 env1 benv1 e = eval w2 r2 env2 benv2 e"
      by (rule eval_pure(1)[OF Cons.prems(6,7) e])
    define e1 where "e1 = env1(v := eval w1 r1 env1 benv1 e)"
    define e2 where "e2 = env2(v := eval w2 r2 env2 benv2 e)"
    have "\<forall>x \<in> insert v ns. e1 x = e2 x"
      using Cons.prems(6) ev by (simp add: e1_def e2_def)
    from Cons.IH[OF b r Cons.prems(3,4,5) this Cons.prems(7)]
    have "run w1 r1 ss ret e1 benv1 = run w2 r2 ss ret e2 benv2" .
    then show ?thesis unfolding Const run.simps e1_def e2_def .
  next
    case (ConstB v c)
    with Cons.prems have c: "blocals_only ns bs c" "\<not> breads_clock c"
      and b: "body_locals_only ns (insert v bs) ss ret" and r: "\<not> list_ex stmt_reads_clock ss" by simp_all
    have ev: "beval w1 r1 env1 benv1 c = beval w2 r2 env2 benv2 c"
      by (rule eval_pure(2)[OF Cons.prems(6,7) c])
    define b1 where "b1 = benv1(v := beval w1 r1 env1 benv1 c)"
    define b2 where "b2 = benv2(v := beval w2 r2 env2 benv2 c)"
    have "\<forall>x \<in> insert v bs. b1 x = b2 x"
      using Cons.prems(7) ev by (simp add: b1_def b2_def)
    from Cons.IH[OF b r Cons.prems(3,4,5) Cons.prems(6) this]
    have "run w1 r1 ss ret env1 b1 = run w2 r2 ss ret env2 b2" .
    then show ?thesis unfolding ConstB run.simps b1_def b2_def .
  qed
qed

lemma bind_params:
  "v \<in> fst ` set xs \<Longrightarrow> bind g1 xs as v = bind g2 xs as v"
proof (induction g1 xs as rule: bind.induct)
  case (1 g as)
  then show ?case by simp
next
  case (2 g x dflt xs)
  then show ?case by (cases "v = x") auto
next
  case (3 g x dflt xs a as)
  then show ?case by (cases "v = x") auto
qed

lemma call_pure:
  assumes "\<not> fun_reads_clock f" "fun_locals_only f"
  shows "call w1 g1 f args = call w2 g2 f args"
proof -
  from assms(1) have b: "\<not> list_ex stmt_reads_clock (fn_body f)"
    and r: "\<not> reads_clock (fn_low f)" "\<not> reads_clock (fn_high f)" "\<not> reads_clock (fn_center f)"
    by (simp_all add: fun_reads_clock_def)
  from assms(2) have l: "body_locals_only (fst ` set (fn_params f)) {} (fn_body f) (fn_low f, fn_high f, fn_center f)"
    by (simp add: fun_locals_only_def)
  have p: "\<forall>v \<in> fst ` set (fn_params f). bind (gnum g1) (fn_params f) args v = bind (gnum g2) (fn_params f) args v"
    using bind_params by blast
  show ?thesis
    unfolding call_def
    by (rule run_pure[OF l b _ _ _ p]) (simp_all add: r)
qed

text \<open>Which of the three bodies read the clock.\<close>

lemma PageClient_clock_free: "\<not> fun_reads_clock PageClient_modeledPriceUSD"
  by (simp add: fun_reads_clock_def PageClient_modeledPriceUSD_def)

lemma page_clock_read: "fun_reads_clock page_modeledPriceUSD"
  by (simp add: fun_reads_clock_def page_modeledPriceUSD_def)

lemma route_clock_read: "fun_reads_clock route_modeledPriceUSD"
  by (simp add: fun_reads_clock_def route_modeledPriceUSD_def)

lemma PageClient_locals_only: "fun_locals_only PageClient_modeledPriceUSD"
  by (simp add: fun_locals_only_def PageClient_modeledPriceUSD_def)

text \<open>The syntax of each model computes the function given for that model above.\<close>

lemma call_PageClient:
  "call w g PageClient_modeledPriceUSD [d, t, s, p] = modeledPriceUSD d t s p"
  "call w g PageClient_modeledPriceUSD [d, t, s] = modeledPriceUSD d t s 0"
  "call w g PageClient_modeledPriceUSD [d, t] = modeledPriceUSD d t 1 0"
  by (simp_all add: call_def PageClient_modeledPriceUSD_def modeledPriceUSD_def Let_def)

lemma call_page:
  "call w g page_modeledPriceUSD [d, t] = modeledPriceUSD_page w d t"
  by (simp add: call_def page_modeledPriceUSD_def modeledPriceUSD_page_def Let_def seededRand_call_def
      seededRand_def)

lemma call_route:
  "call w g route_modeledPriceUSD [d, t] = modeledPriceUSD_route w d (Some t)"
  "call w g route_modeledPriceUSD [d] = modeledPriceUSD_route w d None"
  by (simp_all add: call_def route_modeledPriceUSD_def modeledPriceUSD_route_def Let_def)

text \<open>
  In a rush hour the surge of \<^verbatim>\<open>page.tsx\<close> is at least 1.18, outside of one it is below
  1.18, whatever \<^verbatim>\<open>Date.now()\<close> returns.
\<close>

lemma seededRand_range: "0 \<le> seededRand x \<and> seededRand x < 1"
  unfolding seededRand_def Let_def by linarith

lemma page_center_rush:
  assumes "hours w = 8"
  shows "1.18 * (3.45 + 1.5 * (5000 / 1609.34) + 0.33 * 15) \<le> center (modeledPriceUSD_page w 5000 900)"
proof -
  define r where "r = seededRand (of_int \<lfloor>now_ms w / 60000\<rfloor>)"
  have r: "0 \<le> r" using seededRand_range by (simp add: r_def)
  have "center (modeledPriceUSD_page w 5000 900)
      = max 5 ((3.45 + 1.5 * (5000 / 1609.34) + 0.33 * 15) * (1.18 + r * 0.35))"
    using assms by (simp add: modeledPriceUSD_page_def Let_def r_def)
  moreover have "(3.45 + 1.5 * (5000 / 1609.34) + 0.33 * 15) * 1.18
      \<le> (3.45 + 1.5 * (5000 / 1609.34) + 0.33 * 15) * (1.18 + r * 0.35)"
    using r by (intro mult_left_mono) auto
  ultimately show ?thesis by (simp add: max_def)
qed

lemma page_center_noon:
  assumes "hours w = 12"
  shows "center (modeledPriceUSD_page w 5000 900) < 1.18 * (3.45 + 1.5 * (5000 / 1609.34) + 0.33 * 15)"
proof -
  define r where "r = seededRand (of_int \<lfloor>now_ms w / 120000\<rfloor>)"
  have r: "r < 1" using seededRand_range by (simp add: r_def)
  have "center (modeledPriceUSD_page w 5000 900)
      = max 5 ((3.45 + 1.5 * (5000 / 1609.34) + 0.33 * 15) * (1.0 + r * 0.18))"
    using assms by (simp add: modeledPriceUSD_page_def Let_def r_def)
  moreover have "(3.45 + 1.5 * (5000 / 1609.34) + 0.33 * 15) * (1.0 + r * 0.18)
      < (3.45 + 1.5 * (5000 / 1609.34) + 0.33 * 15) * 1.18"
    using r by (intro mult_strict_left_mono) auto
  ultimately show ?thesis by (simp add: max_def)
qed

text \<open>
  Claim C2, as stated, fails for the price model of \<^verbatim>\<open>src/app/page.tsx\<close>, one of the three
  functions it is about: the body reads the clock, and two calls with the same distance
  and duration, one at eight o'clock and one at noon of the same day, return different
  centres.
\<close>

theorem modeledPriceUSD_page_reads_clock:
  "fun_reads_clock page_modeledPriceUSD \<and>
   center (call ex_eight ex_globals page_modeledPriceUSD [5000, 900])
     \<noteq> center (call ex_noon ex_globals page_modeledPriceUSD [5000, 900]) \<and>
   center (modeledPriceUSD_page ex_eight 5000 900) \<noteq> center (modeledPriceUSD_page ex_noon 5000 900)"
proof -
  have "center (modeledPriceUSD_page ex_eight 5000 900) \<noteq> center (modeledPriceUSD_page ex_noon 5000 900)"
    using page_center_rush[of ex_eight] page_center_noon[of ex_noon]
    by (simp add: ex_eight_def ex_noon_def)
  then show ?thesis by (simp add: call_page page_clock_read)
qed

text \<open>
  The model of the route handler likewise: at one and the same instant, a server whose
  local time is eight o'clock and one whose local time is noon return different centres.
\<close>

lemma modeledPriceUSD_route_reads_clock:
  "center (modeledPriceUSD_route \<lparr>hours = 8, day = dd, now_ms = n\<rparr> 5000 (Some 900))
     \<noteq> center (modeledPriceUSD_route \<lparr>hours = 12, day = dd, now_ms = n\<rparr> 5000 (Some 900))"
proof -
  define r :: real where "r = sin (of_int \<lfloor>n / 60000\<rfloor>) * 0.5 + 0.5"
  have "- 1 \<le> sin (of_int \<lfloor>n / 60000\<rfloor> :: real)" by simp
  then have r: "0 \<le> r" unfolding r_def by linarith
  define k :: real where "k = 3.45 + 1.5 * (5000 / 1609.34) + 0.33 * 15"
  have k: "13 < k" by (simp add: k_def)
  define A where "A = k * (1.15 + r * 0.35)"
  define B where "B = k * (1.0 + r * 0.2)"
  have a: "center (modeledPriceUSD_route \<lparr>hours = 8, day = dd, now_ms = n\<rparr> 5000 (Some 900)) = max 5 A"
    by (simp add: modeledPriceUSD_route_def Let_def r_def k_def A_def)
  have b: "center (modeledPriceUSD_route \<lparr>hours = 12, day = dd, now_ms = n\<rparr> 5000 (Some 900)) = max 5 B"
    by (simp add: modeledPriceUSD_route_def Let_def r_def k_def B_def)
  have "B < A"
    unfolding A_def B_def using r k by (intro mult_strict_left_mono) auto
  moreover have "5 < B"
  proof -
    have "k * 1 \<le> B" unfolding B_def using r k by (intro mult_left_mono) auto
    with k show ?thesis by simp
  qed
  ultimately show ?thesis unfolding a b by linarith
qed

text \<open>
  Claim C2, amended. The fare estimate of \<^verbatim>\<open>PageClient\<close>, the one that takes distance,
  duration, surge and penalty, is deterministic: no read of the clock occurs in its
  body, it draws no random number, every variable it reads is one of its parameters or
  one of its own constants, and two calls with the same four arguments return the same
  low, centre and high in whatever worlds and enclosing scopes they are made and
  whatever the random number generator holds; the quote is the function
  \<open>modeledPriceUSD\<close> of the four arguments. The two-argument estimates of
  \<^verbatim>\<open>src/app/page.tsx\<close> and of the route handler do read the clock; what they return in a
  world is \<open>modeledPriceUSD_page\<close> and \<open>modeledPriceUSD_route\<close> of that world.
\<close>

theorem modeledPriceUSD_reads_no_clock:
  "\<not> fun_reads_clock PageClient_modeledPriceUSD \<and> fun_locals_only PageClient_modeledPriceUSD \<and>
   low (call w1 g1 PageClient_modeledPriceUSD [d, t, s, p])
     = low (call w2 g2 PageClient_modeledPriceUSD [d, t, s, p]) \<and>
   center (call w1 g1 PageClient_modeledPriceUSD [d, t, s, p])
     = center (call w2 g2 PageClient_modeledPriceUSD [d, t, s, p]) \<and>
   high (call w1 g1 PageClient_modeledPriceUSD [d, t, s, p])
     = high (call w2 g2 PageClient_modeledPriceUSD [d, t, s, p]) \<and>
   call w1 g1 PageClient_modeledPriceUSD [d, t, s, p] = modeledPriceUSD d t s p \<and>
   fun_reads_clock page_modeledPriceUSD \<and>
   call w1 g1 page_modeledPriceUSD [d, t] = modeledPriceUSD_page w1 d t \<and>
   fun_reads_clock route_modeledPriceUSD \<and>
   call w1 g1 route_modeledPriceUSD [d, t] = modeledPriceUSD_route w1 d (Some t)"
  using call_pure[OF PageClient_clock_free PageClient_locals_only, of w1 g1 "[d, t, s, p]" w2 g2]
    PageClient_clock_free PageClient_locals_only page_clock_read route_clock_read
    call_PageClient(1) call_page call_route(1)
  by simp

text \<open>
  Claim C5, as stated, at distance 0, duration 0, surge 1, penalty 0: the inputs are valid,
  the centre is the minimum fare 5, and the low is 4.5, below the minimum fare.
\<close>

theorem modeledPriceUSD_low_below_minimum:
  "(0::real) \<le> 0 \<and> (1::real) \<le> 1 \<and>
   \<not> (low (modeledPriceUSD 0 0 1 0) \<le> center (modeledPriceUSD 0 0 1 0) \<and>
      center (modeledPriceUSD 0 0 1 0) \<le> high (modeledPriceUSD 0 0 1 0) \<and>
      5 \<le> low (modeledPriceUSD 0 0 1 0))"
  by (simp add: modeledPriceUSD_def Let_def)

lemma timeOfDayFactor_ge_1: "1 \<le> timeOfDayFactor w"
  by (simp add: timeOfDayFactor_def Let_def)

lemma estimatePriceRange_bounds:
  "pr_low (estimatePriceRange mi dm w) \<le> pr_center (estimatePriceRange mi dm w) \<and>
   pr_center (estimatePriceRange mi dm w) \<le> pr_high (estimatePriceRange mi dm w) \<and>
   7 \<le> pr_low (estimatePriceRange mi dm w)"
proof -
  define price where "price = max ((2.25 + 1.55 * mi + 0.28 * dm + 2.00) * timeOfDayFactor w) 7"
  define band :: real where "band = (if timeOfDayFactor w > 1.2 then 0.28 else 0.18)"
  have b: "0 \<le> band" "band \<le> 1" by (auto simp: band_def)
  have p7: "7 \<le> price" by (simp add: price_def)
  have lo: "pr_low (estimatePriceRange mi dm w) = max 7 (round2 (price * (1 - band)))"
    by (simp add: estimatePriceRange_def Let_def price_def band_def)
  have hi: "pr_high (estimatePriceRange mi dm w) = round2 (price * (1 + band))"
    by (simp add: estimatePriceRange_def Let_def price_def band_def)
  have ce: "pr_center (estimatePriceRange mi dm w) = round2 price"
    by (simp add: estimatePriceRange_def Let_def price_def band_def)
  have "0 \<le> price * band" using p7 b by (intro mult_nonneg_nonneg) auto
  then have le1: "price * (1 - band) \<le> price" and le2: "price \<le> price * (1 + band)"
    by (simp_all add: algebra_simps)
  have "7 \<le> round2 price" using round2_mono[OF p7] by (simp add: round2_7)
  moreover have "round2 (price * (1 - band)) \<le> round2 price" using le1 by (rule round2_mono)
  moreover have "round2 price \<le> round2 (price * (1 + band))" using le2 by (rule round2_mono)
  ultimately show ?thesis unfolding lo hi ce by simp
qed

text \<open>
  Claim C5, amended. For valid inputs (distance, duration and penalty not negative, surge
  at least 1) every quote of the fare model has low \<open>\<le>\<close> centre \<open>\<le>\<close> high, a centre of at
  least the minimum fare 5 and a low of at least 4.5, nine tenths of the minimum fare;
  for miles and minutes that are not negative every range of the estimator has
  low \<open>\<le>\<close> centre \<open>\<le>\<close> high and a low of at least its minimum fare 7.
\<close>

theorem fare_quote_ordered:
  assumes "0 \<le> d" "0 \<le> t" "1 \<le> s" "0 \<le> p" "0 \<le> mi" "0 \<le> dm"
  shows "low (modeledPriceUSD d t s p) \<le> center (modeledPriceUSD d t s p) \<and>
   center (modeledPriceUSD d t s p) \<le> high (modeledPriceUSD d t s p) \<and>
   5 \<le> center (modeledPriceUSD d t s p) \<and>
   4.5 \<le> low (modeledPriceUSD d t s p) \<and>
   pr_low (estimatePriceRange mi dm w) \<le> pr_center (estimatePriceRange mi dm w) \<and>
   pr_center (estimatePriceRange mi dm w) \<le> pr_high (estimatePriceRange mi dm w) \<and>
   7 \<le> pr_low (estimatePriceRange mi dm w)"
  using estimatePriceRange_bounds [of mi dm w]
  by (simp add: modeledPriceUSD_def Let_def)

text \<open>
  The amended claim C5 at 5000 m, 900 s, surge 1 and penalty 0, and at 3 miles and
  15 minutes at eight o'clock on a Monday.
\<close>

theorem fare_quote_ordered_witness:
  "(0::real) \<le> 5000 \<and> (0::real) \<le> 900 \<and> (1::real) \<le> 1 \<and> (0::real) \<le> 0 \<and> (0::real) \<le> 3 \<and> (0::real) \<le> 15 \<and>
   low (modeledPriceUSD 5000 900 1 0) \<le> center (modeledPriceUSD 5000 900 1 0) \<and>
   center (modeledPriceUSD 5000 900 1 0) \<le> high (modeledPriceUSD 5000 900 1 0) \<and>
   5 \<le> center (modeledPriceUSD 5000 900 1 0) \<and>
   4.5 \<le> low (modeledPriceUSD 5000 900 1 0) \<and>
   pr_low (estimatePriceRange 3 15 ex_eight) \<le> pr_center (estimatePriceRange 3 15 ex_eight) \<and>
   pr_center (estimatePriceRange 3 15 ex_eight) \<le> pr_high (estimatePriceRange 3 15 ex_eight) \<and>
   7 \<le> pr_low (estimatePriceRange 3 15 ex_eight)"
  using fare_quote_ordered [of 5000 900 1 0 3 15 ex_eight]
  by simp

subsection \<open>The tail sampler\<close>

lemma forPush_total:
  assumes "\<And>x. x \<in> set xs \<Longrightarrow> f x = Inr (Some (g x))"
  shows "forPush f xs = Inr (map g xs)"
  using assms by (induction xs) auto

lemma dedupe_subset: "set (dedupe seen ps) \<subseteq> set ps"
  by (induction ps arbitrary: seen) auto

lemma dedupe_length: "length (dedupe seen ps) \<le> length ps"
  by (induction ps arbitrary: seen) (auto simp: le_SucI)

lemma dedupe_keys_fresh: "p \<in> set (dedupe seen ps) \<Longrightarrow> key5 p \<notin> seen"
  by (induction ps arbitrary: seen) (auto split: if_splits)

lemma dedupe_distinct: "distinct (map key5 (dedupe seen ps))"
proof (induction ps arbitrary: seen)
  case Nil
  show ?case by simp
next
  case (Cons p ps)
  show ?case
  proof (cases "key5 p \<in> seen")
    case True
    then show ?thesis using Cons.IH by simp
  next
    case False
    have "key5 p \<notin> key5 ` set (dedupe (insert (key5 p) seen) ps)"
      using dedupe_keys_fresh by fastforce
    then show ?thesis using False Cons.IH by simp
  qed
qed

lemma slice_nonempty:
  assumes "2 \<le> length cs" "0 < fraction"
  shows "js_slice cs (max 0 (\<lfloor>real (length cs) * (1 - fraction)\<rfloor> - 1)) (int (length cs) - 1) \<noteq> []"
proof -
  define k where "k = max 0 (\<lfloor>real (length cs) * (1 - fraction)\<rfloor> - 1)"
  have "0 < fraction * real (length cs)"
    using assms by (intro mult_pos_pos) auto
  then have "real (length cs) * (1 - fraction) < real (length cs)"
    by (simp add: algebra_simps)
  then have "\<lfloor>real (length cs) * (1 - fraction)\<rfloor> < int (length cs)"
    by (simp add: floor_less_iff)
  then have k: "0 \<le> k" "k < int (length cs) - 1"
    using assms by (auto simp: k_def)
  then have "0 < nat (int (length cs) - 1 - k)" "nat k < length cs"
    by auto
  then have "take (nat (int (length cs) - 1 - k)) (drop (nat k) cs) \<noteq> []"
    by auto
  then show ?thesis
    unfolding js_slice_def k_def .
qed

lemma samplePoint_ok:
  assumes "slice \<noteq> []"
  shows "\<exists>k < length slice. samplePoint slice cnt i = Inr (Some \<lparr>lat = snd (slice ! k), lng = fst (slice ! k)\<rparr>)"
proof -
  define idx where "idx = min (int (length slice) - 1) \<lfloor>real i / (real cnt + 1) * (real (length slice) - 1)\<rfloor>"
  have m0: "0 \<le> int (length slice) - 1" using assms by (cases slice) auto
  have "0 \<le> real (length slice) - 1"
    using assms by (cases slice) auto
  then have "0 \<le> real i / (real cnt + 1) * (real (length slice) - 1)"
    by (intro mult_nonneg_nonneg divide_nonneg_nonneg) auto
  then have "0 \<le> \<lfloor>real i / (real cnt + 1) * (real (length slice) - 1)\<rfloor>"
    by simp
  then have lo: "0 \<le> idx" using m0 unfolding idx_def by linarith
  have hi: "idx < int (length slice)" unfolding idx_def by linarith
  have "samplePoint slice cnt i = Inr (Some \<lparr>lat = snd (slice ! nat idx), lng = fst (slice ! nat idx)\<rparr>)"
    using lo hi unfolding samplePoint_def Let_def idx_def[symmetric]
    by (simp add: case_prod_beta)
  moreover have "nat idx < length slice" using lo hi by linarith
  ultimately show ?thesis by blast
qed

lemma js_slice_butlast:
  assumes "0 \<le> s"
  shows "set (js_slice cs s (int (length cs) - 1)) \<subseteq> set (butlast cs)"
proof -
  have "nat (int (length cs) - 1 - s) = length cs - 1 - nat s"
    using assms by linarith
  then have "js_slice cs s (int (length cs) - 1) = drop (nat s) (take (length cs - 1) cs)"
    by (simp add: js_slice_def drop_take)
  then show ?thesis
    by (metis butlast_conv_take set_drop_subset)
qed


lemma sampleTail_ok:
  assumes "2 \<le> length cs" "0 < fraction"
  shows "\<exists>ps. sampleTail cs cnt fraction = Inr ps \<and> length ps \<le> cnt \<and> distinct (map key5 ps) \<and>
           (\<forall>p \<in> set ps. (lng p, lat p) \<in> set (butlast cs))"
proof -
  define slice where "slice = js_slice cs (max 0 (\<lfloor>real (length cs) * (1 - fraction)\<rfloor> - 1)) (int (length cs) - 1)"
  define ixs where "ixs = [1 ..< cnt + 1]"
  define pick where "pick = (\<lambda>i. case samplePoint slice cnt i of Inr (Some p) \<Rightarrow> p | _ \<Rightarrow> \<lparr>lat = 0, lng = 0\<rparr>)"
  have lis: "length ixs = cnt" by (simp add: ixs_def del: upt_Suc)
  have ne: "slice \<noteq> []" unfolding slice_def using assms by (rule slice_nonempty)
  have sub: "set slice \<subseteq> set (butlast cs)"
    unfolding slice_def by (rule js_slice_butlast) simp
  have pk: "samplePoint slice cnt i = Inr (Some (pick i)) \<and> (lng (pick i), lat (pick i)) \<in> set slice" for i
    using samplePoint_ok[OF ne, of cnt i] by (auto simp: pick_def)
  have fp: "forPush (samplePoint slice cnt) ixs = Inr (map (pick) ixs)"
    by (rule forPush_total) (simp add: pk)
  have cs: "cs \<noteq> []" using assms by auto
  have eq: "sampleTail cs cnt fraction = Inr (dedupe {} (map (pick) ixs))"
    using cs fp unfolding sampleTail_def Let_def slice_def[symmetric] ixs_def[symmetric] by simp
  have len: "length (dedupe {} (map (pick) ixs)) \<le> cnt"
    using dedupe_length[of "{}" "map pick ixs"] lis by simp
  have mem: "(lng p, lat p) \<in> set (butlast cs)" if "p \<in> set (dedupe {} (map (pick) ixs))" for p
  proof -
    from that dedupe_subset have "p \<in> set (map (pick) ixs)" by blast
    then obtain i where "p = pick i" by auto
    then show ?thesis using pk sub by auto
  qed
  show ?thesis using eq len mem dedupe_distinct by blast
qed

text \<open>
  Claim C10 fails on a geometry of one point: the tail slice is empty, the index is \<open>-1\<close>,
  and destructuring \<^verbatim>\<open>slice[-1]\<close> throws.
\<close>

theorem sampleTail_single_point_throws:
  "sampleTail [(-97.7394, 30.2861)] SAMPLE_COUNT TAIL_FRACTION = Inl TypeError"
  by (simp add: sampleTail_def js_slice_def samplePoint_def Let_def upt_rec
      SAMPLE_COUNT_def TAIL_FRACTION_def)

subsection \<open>Loops and passes\<close>

lemma forPush_member:
  "forPush f xs = Inr rs \<Longrightarrow> c \<in> set rs \<Longrightarrow> \<exists>x \<in> set xs. f x = Inr (Some c)"
proof (induction xs arbitrary: rs)
  case Nil
  then show ?case by simp
next
  case (Cons x xs)
  then show ?case
    by (auto split: sum.splits option.splits)
qed

lemma tierAll_member:
  "tierAll f rs = Inr cs \<Longrightarrow> c \<in> set cs \<Longrightarrow>
     \<exists>r \<in> set rs. \<exists>pts. sampleTail (coords r) SAMPLE_COUNT TAIL_FRACTION = Inr pts \<and>
        (\<exists>p \<in> set pts. f r p = Inr (Some c))"
proof (induction rs arbitrary: cs)
  case Nil
  then show ?case by simp
next
  case (Cons r rs)
  from Cons.prems(1) obtain pts as bs where
    st: "sampleTail (coords r) SAMPLE_COUNT TAIL_FRACTION = Inr pts"
    and fp: "forPush (f r) pts = Inr as"
    and ta: "tierAll f rs = Inr bs"
    and cs: "cs = as @ bs"
    by (auto split: sum.splits)
  from Cons.prems(2) cs consider "c \<in> set as" | "c \<in> set bs" by auto
  then show ?case
  proof cases
    case 1
    with fp forPush_member obtain p where "p \<in> set pts" "f r p = Inr (Some c)" by meson
    with st show ?thesis by auto
  next
    case 2
    with Cons.IH[OF ta] show ?thesis by auto
  qed
qed

lemma mset_insort_cmp: "mset (insort_cmp cmp x ys) = add_mset x (mset ys)"
  by (induction ys) auto

lemma mset_sort_cmp: "mset (sort_cmp cmp xs) = mset xs"
  unfolding sort_cmp_def by (induction xs) (auto simp: mset_insort_cmp)

lemma set_sort_cmp: "set (sort_cmp cmp xs) = set xs"
  by (metis mset_sort_cmp set_mset_mset)

lemma length_sort_cmp: "length (sort_cmp cmp xs) = length xs"
  by (metis mset_sort_cmp size_mset)

lemma capLoop_Cons:
  "capLoop pr capped (c # cs) =
     (if MAX_SUGGESTIONS \<le> length (if (case pr (routeIdx c) of None \<Rightarrow> 0 | Some k \<Rightarrow> k) + 1 \<le> 2 then capped @ [c] else capped)
      then (if (case pr (routeIdx c) of None \<Rightarrow> 0 | Some k \<Rightarrow> k) + 1 \<le> 2 then capped @ [c] else capped)
      else capLoop (pr(routeIdx c \<mapsto> (case pr (routeIdx c) of None \<Rightarrow> 0 | Some k \<Rightarrow> k) + 1))
             (if (case pr (routeIdx c) of None \<Rightarrow> 0 | Some k \<Rightarrow> k) + 1 \<le> 2 then capped @ [c] else capped) cs)"
  by (simp add: Let_def)

lemma capLoop_subset: "set (capLoop pr capped cs) \<subseteq> set capped \<union> set cs"
proof (induction cs arbitrary: pr capped)
  case Nil
  show ?case by simp
next
  case (Cons c cs)
  define n where "n = (case pr (routeIdx c) of None \<Rightarrow> 0 | Some k \<Rightarrow> k) + 1"
  define capped' where "capped' = (if n \<le> 2 then capped @ [c] else capped)"
  define pr' where "pr' = pr(routeIdx c \<mapsto> n)"
  have step: "capLoop pr capped (c # cs) =
      (if MAX_SUGGESTIONS \<le> length capped' then capped' else capLoop pr' capped' cs)"
    unfolding capLoop_Cons n_def capped'_def pr'_def ..
  have sub: "set capped' \<subseteq> set capped \<union> {c}" by (auto simp: capped'_def)
  show ?case
    unfolding step using sub Cons.IH[of pr' capped'] by auto
qed


lemma mergeLoop_subset: "set (mergeLoop lm have res cs) \<subseteq> set res \<union> set cs"
proof (induction cs arbitrary: "have" res)
  case Nil
  show ?case by simp
next
  case (Cons c cs)
  show ?case
    using Cons.IH[of "have" res] Cons.IH[of "insert (candKey c) have" "res @ [c]"]
    by (auto simp: Let_def)
qed


lemma probe_Some:
  assumes "probe q pu dst p = Inr (Some (wm, drv))"
  shows "12 \<le> haversineMeters p dst" "haversineMeters p dst \<le> radiusM q"
    "mapboxDrive q pu p = Inr (Some drv)"
    "wm = (case mapboxWalk q p dst of Inr (Some w) \<Rightarrow> js_round (duration w / 60)
            | _ \<Rightarrow> metersToMinWalk (haversineMeters p dst))"
  using assms
  by (auto simp: probe_def Let_def split: if_splits sum.splits option.splits)

lemma strictPoint_Some:
  "strictPoint tun q pu dst bp r p = Inr (Some c) \<Longrightarrow>
     \<exists>wm drv. probe q pu dst p = Inr (Some (wm, drv)) \<and> c = mkCandidate q r p wm drv Strict"
  by (auto simp: strictPoint_def Let_def split: if_splits sum.splits option.splits)

lemma relaxedPoint_Some:
  "relaxedPoint q pu dst r p = Inr (Some c) \<Longrightarrow>
     \<exists>wm drv. probe q pu dst p = Inr (Some (wm, drv)) \<and> c = mkCandidate q r p wm drv Fallback"
  by (auto simp: relaxedPoint_def Let_def split: if_splits sum.splits option.splits)

lemma closestPoint_Some:
  "closestPoint q pu dst r p = Inr (Some c) \<Longrightarrow>
     \<exists>wm drv. probe q pu dst p = Inr (Some (wm, drv)) \<and> c = mkCandidate q r p wm drv Fallback"
  by (auto simp: closestPoint_def Let_def split: if_splits sum.splits option.splits)

lemma tier_point_cases:
  assumes "f = strictPoint tun q pu dst bp \<or> f = relaxedPoint q pu dst \<or> f = closestPoint q pu dst"
    and "f r p = Inr (Some c)"
  shows "\<exists>wm drv rsn. probe q pu dst p = Inr (Some (wm, drv)) \<and> c = mkCandidate q r p wm drv rsn"
  using assms strictPoint_Some relaxedPoint_Some closestPoint_Some by metis

lemma tier_member:
  assumes "f = strictPoint tun q pu dst bp \<or> f = relaxedPoint q pu dst \<or> f = closestPoint q pu dst"
    and "tierAll f (visibleOf q) = Inr cs" "c \<in> set cs"
  shows "\<exists>r \<in> set (visibleOf q). \<exists>wm drv rsn.
           probe q pu dst (drop_c c) = Inr (Some (wm, drv)) \<and> c = mkCandidate q r (drop_c c) wm drv rsn"
proof -
  from tierAll_member[OF assms(2,3)] obtain r p where
    r: "r \<in> set (visibleOf q)" and fp: "f r p = Inr (Some c)" by blast
  from tier_point_cases[OF assms(1) fp] obtain wm drv rsn where
    pr: "probe q pu dst p = Inr (Some (wm, drv))" and c: "c = mkCandidate q r p wm drv rsn" by blast
  have dp: "drop_c c = p" by (subst c) (simp add: mkCandidate_def)
  show ?thesis unfolding dp using r pr c by blast
qed

lemma relaxedPass_admitted:
  assumes "relaxedPass q pu dst res = Inr res'" "\<forall>c \<in> set res. admitted q pu dst c" "c \<in> set res'"
  shows "admitted q pu dst c"
proof (cases "length res < MIN_SUGGESTIONS")
  case False
  with assms show ?thesis by (simp add: relaxedPass_def)
next
  case True
  with assms(1) obtain rel where rel: "relaxedAll q pu dst = Inr rel"
    and res': "res' = mergeLoop (max MIN_SUGGESTIONS MAX_SUGGESTIONS) (candKey ` set res) res (sort_cmp (relaxedCmp q) rel)"
    by (auto simp: relaxedPass_def split: sum.splits)
  from assms(3) res' mergeLoop_subset have "c \<in> set res \<or> c \<in> set rel"
    by (fastforce simp: set_sort_cmp)
  then show ?thesis
  proof
    assume "c \<in> set res" with assms(2) show ?thesis by blast
  next
    assume "c \<in> set rel"
    with rel tier_member[of "relaxedPoint q pu dst" undefined q pu dst undefined rel c]
    show ?thesis by (simp add: relaxedAll_def admitted_def)
  qed
qed

lemma closestPass_admitted:
  assumes "closestPass q pu dst res = Inr res'" "\<forall>c \<in> set res. admitted q pu dst c" "c \<in> set res'"
  shows "admitted q pu dst c"
proof (cases "length res < MIN_SUGGESTIONS")
  case False
  with assms show ?thesis by (simp add: closestPass_def)
next
  case True
  with assms(1) obtain clo where clo: "closestAll q pu dst = Inr clo"
    and res': "res' = mergeLoop MIN_SUGGESTIONS (candKey ` set res) res (sort_cmp (closestCmp q dst) clo)"
    by (auto simp: closestPass_def split: sum.splits)
  from assms(3) res' mergeLoop_subset have "c \<in> set res \<or> c \<in> set clo"
    by (fastforce simp: set_sort_cmp)
  then show ?thesis
  proof
    assume "c \<in> set res" with assms(2) show ?thesis by blast
  next
    assume "c \<in> set clo"
    with clo tier_member[of "closestPoint q pu dst" undefined q pu dst undefined clo c]
    show ?thesis by (simp add: closestAll_def admitted_def)
  qed
qed

lemma strictCapped_admitted:
  assumes "strictAll tun q pu dst bp = Inr xs" "c \<in> set (strictCapped q bp xs)"
  shows "admitted q pu dst c"
proof -
  from assms(2) capLoop_subset have "c \<in> set xs"
    by (fastforce simp: strictCapped_def set_sort_cmp)
  with assms(1) tier_member[of "strictPoint tun q pu dst bp" tun q pu dst bp xs c]
  show ?thesis by (simp add: strictAll_def admitted_def)
qed

lemma discoverWith_admitted:
  assumes "discoverWith tun q = Inr rs" "c \<in> set rs"
  shows "\<exists>pu dst. pickup q = Some pu \<and> dest q = Some dst \<and> admitted q pu dst c"
proof -
  from assms obtain pu where pu: "pickup q = Some pu"
    by (auto simp: discoverWith_def split: option.splits)
  from assms pu obtain dst where dst: "dest q = Some dst"
    by (auto simp: discoverWith_def split: option.splits)
  from assms pu dst obtain bestReg where br: "bestRegOf q = Some bestReg"
    by (auto simp: discoverWith_def split: option.splits)
  define bp where "bp = bestPriceOf q bestReg"
  from assms(1) pu dst br obtain xs res res' where
    sa: "strictAll tun q pu dst bp = Inr xs"
    and rp: "relaxedPass q pu dst (strictCapped q bp xs) = Inr res"
    and cp: "closestPass q pu dst res = Inr res'"
    and rs: "rs = take MAX_SUGGESTIONS res'"
    by (auto simp: discoverWith_def Let_def bp_def split: sum.splits)
  have 1: "\<forall>c \<in> set (strictCapped q bp xs). admitted q pu dst c"
    using strictCapped_admitted[OF sa] by blast
  have 2: "\<forall>c \<in> set res. admitted q pu dst c"
    using relaxedPass_admitted[OF rp 1] by blast
  have "c \<in> set res'" using assms(2) rs by (auto dest: in_set_takeD)
  from closestPass_admitted[OF cp 2 this] pu dst show ?thesis by blast
qed

lemma admitted_band:
  assumes "admitted q pu dst c"
  shows "12 \<le> haversineMeters (drop_c c) dst" "haversineMeters (drop_c c) dst \<le> radiusM q"
    "walkMin c = (case mapboxWalk q (drop_c c) dst of Inr (Some w) \<Rightarrow> js_round (duration w / 60)
            | _ \<Rightarrow> metersToMinWalk (haversineMeters (drop_c c) dst))"
proof -
  from assms obtain r wm drv rsn where
    pr: "probe q pu dst (drop_c c) = Inr (Some (wm, drv))" and c: "c = mkCandidate q r (drop_c c) wm drv rsn"
    unfolding admitted_def by blast
  have wm: "walkMin c = wm" by (subst c) (simp add: mkCandidate_def)
  from probe_Some[OF pr] wm
  show "12 \<le> haversineMeters (drop_c c) dst" "haversineMeters (drop_c c) dst \<le> radiusM q"
    "walkMin c = (case mapboxWalk q (drop_c c) dst of Inr (Some w) \<Rightarrow> js_round (duration w / 60)
            | _ \<Rightarrow> metersToMinWalk (haversineMeters (drop_c c) dst))"
    by simp_all
qed

text \<open>
  The walking minutes of a candidate: the duration that the walking provider reports, in
  minutes, rounded; the straight-line estimate when the provider has no route.
\<close>

lemma probe_walk:
  assumes "probe q pu dst p = Inr (Some (wm, drv))"
  shows "\<exists>wk. mapboxWalk q p dst = Inr wk \<and>
           wm = (case wk of Some w \<Rightarrow> js_round (duration w / 60)
                 | None \<Rightarrow> metersToMinWalk (haversineMeters p dst))"
  using assms
  by (auto simp: probe_def Let_def split: if_splits sum.splits option.splits)

lemma admitted_walk:
  assumes "admitted q pu dst c"
  shows "\<exists>wk. mapboxWalk q (drop_c c) dst = Inr wk \<and>
           walkMin c = (case wk of Some w \<Rightarrow> js_round (duration w / 60)
                        | None \<Rightarrow> metersToMinWalk (haversineMeters (drop_c c) dst))"
proof -
  from assms obtain r wm drv rsn where
    pr: "probe q pu dst (drop_c c) = Inr (Some (wm, drv))" and c: "c = mkCandidate q r (drop_c c) wm drv rsn"
    unfolding admitted_def by blast
  have wm: "walkMin c = wm" by (subst c) (simp add: mkCandidate_def)
  from probe_walk[OF pr] wm show ?thesis by simp
qed

lemma haversine_meridian:
  assumes "\<bar>y - x\<bar> \<le> 180"
  shows "haversineMeters \<lparr>lat = x, lng = l\<rparr> \<lparr>lat = y, lng = l\<rparr> = EARTH_M * \<bar>y - x\<bar> * pi / 180"
proof -
  define u where "u = (y - x) * DEG2RAD / 2"
  have u: "\<bar>u\<bar> \<le> pi / 2"
  proof -
    have "\<bar>u\<bar> = \<bar>y - x\<bar> * pi / 360" by (simp add: u_def DEG2RAD_def abs_mult)
    also have "\<dots> \<le> 180 * pi / 360" using assms by (intro divide_right_mono mult_right_mono) auto
    finally show ?thesis by simp
  qed
  have s: "\<bar>sin u\<bar> = sin \<bar>u\<bar>"
  proof (cases "0 \<le> u")
    case True
    then have "0 \<le> sin u" using u by (intro sin_ge_zero) auto
    then show ?thesis using True by simp
  next
    case False
    then have "0 \<le> sin (- u)" using u by (intro sin_ge_zero) auto
    then show ?thesis using False by simp
  qed
  have "haversineMeters \<lparr>lat = x, lng = l\<rparr> \<lparr>lat = y, lng = l\<rparr> = 2 * EARTH_M * arcsin (min 1 \<bar>sin u\<bar>)"
    by (simp add: haversineMeters_def Let_def u_def)
  also have "min 1 \<bar>sin u\<bar> = sin \<bar>u\<bar>" using s by (simp add: min_absorb2)
  also have "arcsin (sin \<bar>u\<bar>) = \<bar>u\<bar>" using u by (intro arcsin_sin) auto
  also have "2 * EARTH_M * \<bar>u\<bar> = EARTH_M * \<bar>y - x\<bar> * pi / 180"
    by (simp add: u_def DEG2RAD_def abs_mult)
  finally show ?thesis .
qed

subsection \<open>The strict cap\<close>




lemma discoverWith_length: "discoverWith tun q = Inr rs \<Longrightarrow> length rs \<le> MAX_SUGGESTIONS"
  by (auto simp: discoverWith_def Let_def split: option.splits sum.splits)

subsection \<open>Sorting\<close>





subsection \<open>Merging\<close>



subsection \<open>The three passes throw together\<close>

lemma forPush_returns:
  assumes "forPush f xs = Inr rs" "\<And>x e. x \<in> set xs \<Longrightarrow> g x = Inl e \<Longrightarrow> \<exists>e'. f x = Inl e'"
  shows "\<exists>rs'. forPush g xs = Inr rs'"
  using assms
proof (induction xs arbitrary: rs)
  case Nil
  show ?case by simp
next
  case (Cons x xs)
  from Cons.prems(1) obtain r rs0 where fx: "f x = Inr r" and f0: "forPush f xs = Inr rs0"
    by (auto split: sum.splits)
  from Cons.IH[OF f0] Cons.prems(2) obtain rs1 where g0: "forPush g xs = Inr rs1" by auto
  from fx Cons.prems(2)[of x] obtain r' where "g x = Inr r'" by (cases "g x") auto
  with g0 show ?case by simp
qed

lemma tierAll_returns:
  assumes "tierAll f rs = Inr cs" "\<And>r p e. g r p = Inl e \<Longrightarrow> \<exists>e'. f r p = Inl e'"
  shows "\<exists>ds. tierAll g rs = Inr ds"
  using assms(1)
proof (induction rs arbitrary: cs)
  case Nil
  show ?case by simp
next
  case (Cons r rs)
  from Cons.prems obtain pts as bs where
    st: "sampleTail (coords r) SAMPLE_COUNT TAIL_FRACTION = Inr pts"
    and fp: "forPush (f r) pts = Inr as"
    and ta: "tierAll f rs = Inr bs"
    by (auto split: sum.splits)
  from forPush_returns[OF fp, of "g r"] assms(2) obtain as' where "forPush (g r) pts = Inr as'" by blast
  moreover from Cons.IH[OF ta] obtain bs' where "tierAll g rs = Inr bs'" by blast
  ultimately show ?case using st by simp
qed

lemma point_throws:
  "relaxedPoint q pu dst r p = Inl e \<Longrightarrow> strictPoint tun q pu dst bp r p = Inl e"
  "closestPoint q pu dst r p = Inl e \<Longrightarrow> strictPoint tun q pu dst bp r p = Inl e"
  by (auto simp: relaxedPoint_def closestPoint_def strictPoint_def Let_def split: sum.splits option.splits if_splits)

lemma strict_returns_all_return:
  assumes "strictAll tun q pu dst bp = Inr xs"
  shows "\<exists>rel clo. relaxedAll q pu dst = Inr rel \<and> closestAll q pu dst = Inr clo"
proof -
  from tierAll_returns[OF assms[unfolded strictAll_def], of "relaxedPoint q pu dst"] point_throws(1)
  obtain rel where "relaxedAll q pu dst = Inr rel" unfolding relaxedAll_def by blast
  moreover
  from tierAll_returns[OF assms[unfolded strictAll_def], of "closestPoint q pu dst"] point_throws(2)
  obtain clo where "closestAll q pu dst = Inr clo" unfolding closestAll_def by blast
  ultimately show ?thesis by blast
qed

subsection \<open>The route sets\<close>

lemma regularLabel_0: "regularLabel 0 = ''Regular A''"
  unfolding regularLabel_def by code_simp

lemma regularLabel_1: "regularLabel 1 = ''Regular B''"
  unfolding regularLabel_def by code_simp

lemma alternateLabel_0: "alternateLabel 0 = ''Alternate 1''"
  unfolding alternateLabel_def by code_simp

lemma alternateLabel_2: "alternateLabel 2 = ''Alternate 3''"
  unfolding alternateLabel_def by code_simp

lemma labelled_Nil: "labelled f i rs = [] \<longleftrightarrow> rs = []"
  by (cases rs) auto

lemma routeSets_regular_first:
  assumes "routeSets answer = (regs, alts)" "alts \<noteq> []"
  shows "regs \<noteq> []"
proof -
  from assms obtain rt where rt: "answer = Some rt" "rt \<noteq> []"
    by (auto simp: routeSets_def split: option.splits if_splits)
  then have "sort_cmp (\<lambda>a b. duration a - duration b) rt \<noteq> []"
    using length_sort_cmp[of "\<lambda>a b. duration a - duration b" rt] by auto
  then have "js_slice (sort_cmp (\<lambda>a b. duration a - duration b) rt) 0 (int REG_MAX) \<noteq> []"
    by (simp add: js_slice_def REG_MAX_def)
  with assms(1) rt show ?thesis
    by (auto simp: routeSets_def Let_def labelled_Nil)
qed

lemma visible_has_bestReg:
  assumes "routeSets answer = (regularRoutes q, altRoutes q)" "visibleOf q \<noteq> []"
  shows "\<exists>bestReg. bestRegOf q = Some bestReg"
proof -
  have "regularRoutes q \<noteq> []"
    using assms routeSets_regular_first[OF assms(1)] by (auto simp: visibleOf_def split: if_splits)
  then have "sort_cmp (\<lambda>a b. duration a - duration b) (regularRoutes q) \<noteq> []"
    using length_sort_cmp[of "\<lambda>a b. duration a - duration b" "regularRoutes q"] by auto
  then show ?thesis
    by (auto simp: bestRegOf_def split: list.splits)
qed

subsection \<open>The pipeline returns\<close>

text \<open>
  When no provider call throws and no visible route has a geometry of exactly one point,
  the pipeline returns a list.
\<close>

lemma forPush_total_ex:
  assumes "\<And>x. x \<in> set xs \<Longrightarrow> \<exists>y. f x = Inr y"
  shows "\<exists>rs. forPush f xs = Inr rs"
  using assms
proof (induction xs)
  case Nil
  show ?case by simp
next
  case (Cons x xs)
  from Cons.prems[of x] obtain y where "f x = Inr y" by auto
  moreover from Cons.IH Cons.prems obtain rs where "forPush f xs = Inr rs" by auto
  ultimately show ?case by simp
qed

lemma sampleTail_returns:
  assumes "length cs \<noteq> 1"
  shows "\<exists>ps. sampleTail cs SAMPLE_COUNT TAIL_FRACTION = Inr ps"
proof (cases "cs = []")
  case True
  then show ?thesis by (simp add: sampleTail_def)
next
  case False
  with assms have "2 \<le> length cs" by (cases cs) (auto simp: Suc_le_eq)
  from sampleTail_ok[OF this, of TAIL_FRACTION SAMPLE_COUNT] show ?thesis
    by (auto simp: TAIL_FRACTION_def)
qed

lemma tierAll_total:
  assumes "\<And>r. r \<in> set rs \<Longrightarrow> length (coords r) \<noteq> 1" "\<And>r p. \<exists>y. f r p = Inr y"
  shows "\<exists>cs. tierAll f rs = Inr cs"
  using assms(1)
proof (induction rs)
  case Nil
  show ?case by simp
next
  case (Cons r rs)
  from sampleTail_returns[of "coords r"] Cons.prems obtain pts where
    "sampleTail (coords r) SAMPLE_COUNT TAIL_FRACTION = Inr pts" by auto
  moreover from forPush_total_ex[of pts "f r"] assms(2) obtain as where "forPush (f r) pts = Inr as" by blast
  moreover from Cons.IH Cons.prems obtain bs where "tierAll f rs = Inr bs" by auto
  ultimately show ?case by simp
qed

lemma probe_total:
  assumes "\<And>a b. \<exists>y. mapboxWalk q a b = Inr y" "\<And>a b. \<exists>y. mapboxDrive q a b = Inr y"
  shows "\<exists>y. probe q pu dst p = Inr y"
proof -
  from assms(1)[of p dst] obtain wk where w: "mapboxWalk q p dst = Inr wk" by blast
  from assms(2)[of pu p] obtain dr where d: "mapboxDrive q pu p = Inr dr" by blast
  show ?thesis using w d by (cases dr) (auto simp: probe_def Let_def)
qed

lemma strictPoint_total:
  assumes "\<exists>y. probe q pu dst p = Inr y"
  shows "\<exists>y. strictPoint tun q pu dst bp r p = Inr y"
  using assms by (auto simp: strictPoint_def Let_def split: option.splits)

lemma discoverWith_returns:
  assumes "\<And>a b. \<exists>y. mapboxWalk q a b = Inr y" "\<And>a b. \<exists>y. mapboxDrive q a b = Inr y"
    and "\<And>r. r \<in> set (visibleOf q) \<Longrightarrow> length (coords r) \<noteq> 1"
  shows "\<exists>rs. discoverWith tun q = Inr rs"
proof (cases "pickup q")
  case None
  then show ?thesis by (simp add: discoverWith_def)
next
  case (Some pu)
  show ?thesis
  proof (cases "dest q")
    case None
    with Some show ?thesis by (simp add: discoverWith_def)
  next
    case dst: (Some dst)
    show ?thesis
    proof (cases "bestRegOf q")
      case None
      with Some dst show ?thesis by (simp add: discoverWith_def)
    next
      case br: (Some bestReg)
      have "\<exists>y. strictPoint tun q pu dst (bestPriceOf q bestReg) r p = Inr y" for r p
        by (rule strictPoint_total) (rule probe_total[OF assms(1,2)])
      from tierAll_total[of "visibleOf q" "strictPoint tun q pu dst (bestPriceOf q bestReg)", OF assms(3) this]
      obtain xs where xs: "strictAll tun q pu dst (bestPriceOf q bestReg) = Inr xs"
        by (auto simp: strictAll_def)
      from strict_returns_all_return[OF xs] obtain rel clo where
        rc: "relaxedAll q pu dst = Inr rel" "closestAll q pu dst = Inr clo" by blast
      obtain res where rp: "relaxedPass q pu dst (strictCapped q (bestPriceOf q bestReg) xs) = Inr res"
        using rc(1) by (cases "length (strictCapped q (bestPriceOf q bestReg) xs) < MIN_SUGGESTIONS")
          (auto simp: relaxedPass_def)
      obtain res' where cp: "closestPass q pu dst res = Inr res'"
        using rc(2) by (cases "length res < MIN_SUGGESTIONS") (auto simp: closestPass_def)
      show ?thesis
        using Some dst br xs rp cp by (simp add: discoverWith_def)
    qed
  qed
qed

subsection \<open>What the fallback tier admits\<close>

text \<open>
  A sampled point of a visible route that lies in the radius band and has a driving
  answer is among the candidates of the fallback tier.
\<close>

lemma forPush_complete:
  "forPush f xs = Inr rs \<Longrightarrow> x \<in> set xs \<Longrightarrow> f x = Inr (Some c) \<Longrightarrow> c \<in> set rs"
proof (induction xs arbitrary: rs)
  case Nil
  then show ?case by simp
next
  case (Cons a xs)
  then show ?case by (auto split: sum.splits option.splits)
qed

lemma tierAll_complete:
  assumes "tierAll f rs = Inr cs" "r \<in> set rs"
    "sampleTail (coords r) SAMPLE_COUNT TAIL_FRACTION = Inr pts" "p \<in> set pts" "f r p = Inr (Some c)"
  shows "c \<in> set cs"
  using assms(1,2)
proof (induction rs arbitrary: cs)
  case Nil
  then show ?case by simp
next
  case (Cons a rs)
  from Cons.prems(1) obtain pts' as bs where
    st: "sampleTail (coords a) SAMPLE_COUNT TAIL_FRACTION = Inr pts'"
    and fp: "forPush (f a) pts' = Inr as"
    and ta: "tierAll f rs = Inr bs"
    and cs: "cs = as @ bs"
    by (auto split: sum.splits)
  show ?case
  proof (cases "r = a")
    case True
    with st assms(3) have "pts' = pts" by simp
    with fp True forPush_complete[of "f a" pts as p c] assms(4,5) cs show ?thesis by simp
  next
    case False
    with Cons.prems(2) have "r \<in> set rs" by simp
    from Cons.IH[OF ta this] cs show ?thesis by simp
  qed
qed

lemma probe_eval:
  assumes "12 \<le> haversineMeters p dst" "haversineMeters p dst \<le> radiusM q"
    "mapboxWalk q p dst = Inr wk" "mapboxDrive q pu p = Inr (Some drv)"
  shows "probe q pu dst p =
     Inr (Some ((case wk of Some w \<Rightarrow> js_round (duration w / 60)
                 | None \<Rightarrow> metersToMinWalk (haversineMeters p dst)), drv))"
  using assms by (simp add: probe_def Let_def)

lemma forPush_point_returns:
  "forPush f xs = Inr rs \<Longrightarrow> x \<in> set xs \<Longrightarrow> \<exists>y. f x = Inr y"
proof (induction xs arbitrary: rs)
  case Nil
  then show ?case by simp
next
  case (Cons a xs)
  then show ?case by (auto split: sum.splits)
qed

lemma tierAll_point_returns:
  assumes "tierAll f rs = Inr cs" "r \<in> set rs"
    "sampleTail (coords r) SAMPLE_COUNT TAIL_FRACTION = Inr pts" "p \<in> set pts"
  shows "\<exists>y. f r p = Inr y"
  using assms(1,2)
proof (induction rs arbitrary: cs)
  case Nil
  then show ?case by simp
next
  case (Cons a rs)
  from Cons.prems(1) obtain pts' as bs where
    st: "sampleTail (coords a) SAMPLE_COUNT TAIL_FRACTION = Inr pts'"
    and fp: "forPush (f a) pts' = Inr as"
    and ta: "tierAll f rs = Inr bs"
    by (auto split: sum.splits)
  show ?case
  proof (cases "r = a")
    case True
    with st assms(3) have "pts' = pts" by simp
    with fp True forPush_point_returns[of "f a" pts as p] assms(4) show ?thesis by simp
  next
    case False
    with Cons.prems(2) have "r \<in> set rs" by simp
    from Cons.IH[OF ta this] show ?thesis .
  qed
qed

lemma closestAll_admits:
  assumes "closestAll q pu dst = Inr clo" "r \<in> set (visibleOf q)"
    "sampleTail (coords r) SAMPLE_COUNT TAIL_FRACTION = Inr pts" "p \<in> set pts"
    "12 \<le> haversineMeters p dst" "haversineMeters p dst \<le> radiusM q"
    "mapboxDrive q pu p = Inr (Some drv)"
  shows "\<exists>c \<in> set clo. drop_c c = p \<and> routeIdx c = label r"
proof -
  from assms(1) have t: "tierAll (closestPoint q pu dst) (visibleOf q) = Inr clo"
    by (simp add: closestAll_def)
  from tierAll_point_returns[OF t assms(2,3,4)] obtain y where
    y: "closestPoint q pu dst r p = Inr y" by blast
  then obtain wk where wk: "mapboxWalk q p dst = Inr wk"
    using assms(5,6) by (cases "mapboxWalk q p dst") (auto simp: closestPoint_def probe_def Let_def)
  from probe_eval[OF assms(5,6) wk assms(7)] obtain wm where
    pr: "probe q pu dst p = Inr (Some (wm, drv))" by blast
  then have c: "closestPoint q pu dst r p = Inr (Some (mkCandidate q r p wm drv Fallback))"
    by (simp add: closestPoint_def)
  from tierAll_complete[OF t assms(2,3,4) c]
  have "mkCandidate q r p wm drv Fallback \<in> set clo" .
  moreover have "drop_c (mkCandidate q r p wm drv Fallback) = p"
    "routeIdx (mkCandidate q r p wm drv Fallback) = label r"
    by (simp_all add: mkCandidate_def)
  ultimately show ?thesis by blast
qed

subsection \<open>Tightening the strict thresholds\<close>

lemma strictPoint_tighter:
  assumes "DIST_FACTOR t' \<le> DIST_FACTOR t" "TIME_FACTOR t' \<le> TIME_FACTOR t"
    "PCT_IMPROVE t \<le> PCT_IMPROVE t'" "ABS_IMPROVE_MIN t \<le> ABS_IMPROVE_MIN t'"
    "0 \<le> distance r" "0 \<le> duration r"
    and "strictPoint t q pu dst bp r p = Inr y"
  shows "strictPoint t' q pu dst bp r p = Inr None \<or> strictPoint t' q pu dst bp r p = Inr y"
proof (cases "probe q pu dst p")
  case (Inl e)
  with assms(7) show ?thesis by (simp add: strictPoint_def)
next
  case (Inr o1)
  show ?thesis
  proof (cases o1)
    case None
    with Inr show ?thesis by (simp add: strictPoint_def)
  next
    case (Some wd)
    obtain wm drv where wd: "wd = (wm, drv)" by (cases wd)
    have d: "DIST_FACTOR t' * distance r \<le> DIST_FACTOR t * distance r"
      using assms(1,5) by (rule mult_right_mono)
    have u: "TIME_FACTOR t' * duration r \<le> TIME_FACTOR t * duration r"
      using assms(2,6) by (rule mult_right_mono)
    show ?thesis
    proof (cases "strictPoint t' q pu dst bp r p = Inr None")
      case True
      then show ?thesis by simp
    next
      case False
      then have acc': "distance drv \<le> DIST_FACTOR t' * distance r" "duration drv \<le> TIME_FACTOR t' * duration r"
        "\<not> bp - center (modeledPriceUSD (distance drv) (duration drv) (surgeProxy q) (zonePenaltyUSD p)) < ABS_IMPROVE_MIN t'"
        "\<not> (bp - center (modeledPriceUSD (distance drv) (duration drv) (surgeProxy q) (zonePenaltyUSD p))) / bp < PCT_IMPROVE t'"
        using Inr Some wd by (auto simp: strictPoint_def Let_def split: if_splits)
      then have e': "strictPoint t' q pu dst bp r p = Inr (Some (mkCandidate q r p wm drv Strict))"
        using Inr Some wd by (simp add: strictPoint_def Let_def)
      from acc' d u assms(3,4) have acc: "distance drv \<le> DIST_FACTOR t * distance r" "duration drv \<le> TIME_FACTOR t * duration r"
        "\<not> bp - center (modeledPriceUSD (distance drv) (duration drv) (surgeProxy q) (zonePenaltyUSD p)) < ABS_IMPROVE_MIN t"
        "\<not> (bp - center (modeledPriceUSD (distance drv) (duration drv) (surgeProxy q) (zonePenaltyUSD p))) / bp < PCT_IMPROVE t"
        by linarith+
      then have "strictPoint t q pu dst bp r p = Inr (Some (mkCandidate q r p wm drv Strict))"
        using Inr Some wd by (simp add: strictPoint_def Let_def)
      with assms(7) e' show ?thesis by simp
    qed
  qed
qed

lemma forPush_fewer:
  assumes "forPush f xs = Inr rs"
    "\<And>x y. x \<in> set xs \<Longrightarrow> f x = Inr y \<Longrightarrow> g x = Inr None \<or> g x = Inr y"
  shows "\<exists>rs'. forPush g xs = Inr rs' \<and> mset rs' \<subseteq># mset rs"
  using assms
proof (induction xs arbitrary: rs)
  case Nil
  then show ?case by simp
next
  case (Cons x xs)
  from Cons.prems(1) obtain y rs0 where fx: "f x = Inr y" and f0: "forPush f xs = Inr rs0"
    and rs: "rs = (case y of None \<Rightarrow> rs0 | Some c \<Rightarrow> c # rs0)"
    by (auto split: sum.splits)
  from Cons.IH[OF f0] Cons.prems(2) obtain rs1 where g0: "forPush g xs = Inr rs1" and sub: "mset rs1 \<subseteq># mset rs0"
    by auto
  from Cons.prems(2)[of x y] fx consider "g x = Inr None" | "g x = Inr y" by auto
  then show ?case
  proof cases
    case 1
    then have "forPush g (x # xs) = Inr rs1" using g0 by simp
    moreover have "mset rs1 \<subseteq># mset rs"
      using sub rs by (cases y) (auto intro: subset_mset.order_trans)
    ultimately show ?thesis by blast
  next
    case 2
    then have "forPush g (x # xs) = Inr (case y of None \<Rightarrow> rs1 | Some c \<Rightarrow> c # rs1)" using g0 by simp
    moreover have "mset (case y of None \<Rightarrow> rs1 | Some c \<Rightarrow> c # rs1) \<subseteq># mset rs"
      using sub rs by (cases y) auto
    ultimately show ?thesis by blast
  qed
qed

lemma tierAll_fewer:
  assumes "tierAll f rs = Inr cs"
    "\<And>r p y. r \<in> set rs \<Longrightarrow> f r p = Inr y \<Longrightarrow> g r p = Inr None \<or> g r p = Inr y"
  shows "\<exists>cs'. tierAll g rs = Inr cs' \<and> mset cs' \<subseteq># mset cs"
  using assms
proof (induction rs arbitrary: cs)
  case Nil
  then show ?case by simp
next
  case (Cons r rs)
  from Cons.prems(1) obtain pts as bs where
    st: "sampleTail (coords r) SAMPLE_COUNT TAIL_FRACTION = Inr pts"
    and fp: "forPush (f r) pts = Inr as"
    and ta: "tierAll f rs = Inr bs"
    and cs: "cs = as @ bs"
    by (auto split: sum.splits)
  from forPush_fewer[OF fp, of "g r"] Cons.prems(2)[of r] obtain as' where
    a: "forPush (g r) pts = Inr as'" "mset as' \<subseteq># mset as" by auto
  from Cons.IH[OF ta] Cons.prems(2) obtain bs' where
    b: "tierAll g rs = Inr bs'" "mset bs' \<subseteq># mset bs" by auto
  have "tierAll g (r # rs) = Inr (as' @ bs')" using st a(1) b(1) by simp
  moreover have "mset (as' @ bs') \<subseteq># mset cs"
    using a(2) b(2) cs by (simp add: subset_mset.add_mono)
  ultimately show ?case by blast
qed

lemma capLoop_length_eq:
  assumes "finite S" "routeIdx ` set cs \<subseteq> S" "length capped < MAX_SUGGESTIONS"
  shows "length (capLoop pr capped cs) =
     min MAX_SUGGESTIONS (length capped +
       (\<Sum>l\<in>S. min 2 ((case pr l of None \<Rightarrow> 0 | Some k \<Rightarrow> k) + length (filter (\<lambda>c. routeIdx c = l) cs))
               - min 2 (case pr l of None \<Rightarrow> 0 | Some k \<Rightarrow> k)))"
  using assms(2,3)
proof (induction cs arbitrary: pr capped)
  case Nil
  then show ?case by simp
next
  case (Cons c cs)
  define l0 where "l0 = routeIdx c"
  define d where "d = (case pr l0 of None \<Rightarrow> 0 | Some k \<Rightarrow> k)"
  define n where "n = d + 1"
  define capped' where "capped' = (if n \<le> 2 then capped @ [c] else capped)"
  define pr' where "pr' = pr(l0 \<mapsto> n)"
  define T where "T = (\<lambda>(pr :: string \<rightharpoonup> nat) (cs :: candidate list) l. min 2 ((case pr l of None \<Rightarrow> 0 | Some k \<Rightarrow> k) + length (filter (\<lambda>c. routeIdx c = l) cs))
               - min 2 (case pr l of None \<Rightarrow> (0::nat) | Some k \<Rightarrow> k))"
  have step: "capLoop pr capped (c # cs) =
      (if MAX_SUGGESTIONS \<le> length capped' then capped' else capLoop pr' capped' cs)"
    unfolding capLoop_Cons n_def d_def l0_def capped'_def pr'_def ..
  have l0S: "l0 \<in> S" using Cons.prems(1) by (simp add: l0_def)
  have sub: "routeIdx ` set cs \<subseteq> S" using Cons.prems(1) by simp
  have other: "T pr (c # cs) l = T pr' cs l" if "l \<noteq> l0" for l
    using that by (simp add: T_def pr'_def l0_def)
  have k0: "T pr (c # cs) l0 = (if n \<le> 2 then 1 else 0) + T pr' cs l0"
    by (auto simp: T_def pr'_def l0_def[symmetric] d_def[symmetric] n_def)
  have "(\<Sum>l\<in>S. T pr (c # cs) l) = T pr (c # cs) l0 + (\<Sum>l\<in>S - {l0}. T pr (c # cs) l)"
    using assms(1) l0S by (rule sum.remove)
  also have "(\<Sum>l\<in>S - {l0}. T pr (c # cs) l) = (\<Sum>l\<in>S - {l0}. T pr' cs l)"
    by (rule sum.cong) (auto simp: other)
  also have "T pr (c # cs) l0 + (\<Sum>l\<in>S - {l0}. T pr' cs l) =
      (if n \<le> 2 then 1 else 0) + (T pr' cs l0 + (\<Sum>l\<in>S - {l0}. T pr' cs l))"
    using k0 by simp
  also have "T pr' cs l0 + (\<Sum>l\<in>S - {l0}. T pr' cs l) = (\<Sum>l\<in>S. T pr' cs l)"
    using assms(1) l0S by (rule sum.remove[symmetric])
  finally have sumeq: "(\<Sum>l\<in>S. T pr (c # cs) l) = (if n \<le> 2 then 1 else 0) + (\<Sum>l\<in>S. T pr' cs l)" .
  define s' where "s' = (\<Sum>l\<in>S. T pr' cs l)"
  have tot: "(\<Sum>l\<in>S. min 2 ((case pr l of None \<Rightarrow> 0 | Some k \<Rightarrow> k) + length (filter (\<lambda>c. routeIdx c = l) (c # cs)))
               - min 2 (case pr l of None \<Rightarrow> 0 | Some k \<Rightarrow> k)) = (if n \<le> 2 then 1 else 0) + s'"
    using sumeq unfolding T_def s'_def .
  have lc: "length capped' = length capped + (if n \<le> 2 then 1 else 0)"
    by (simp add: capped'_def)
  show ?case
  proof (cases "MAX_SUGGESTIONS \<le> length capped'")
    case True
    then have "length (capLoop pr capped (c # cs)) = length capped'" unfolding step by simp
    moreover have "length capped' = MAX_SUGGESTIONS" using True lc Cons.prems(2) by (auto split: if_splits)
    ultimately show ?thesis
      unfolding tot using lc by (auto split: if_splits)
  next
    case False
    then have lt: "length capped' < MAX_SUGGESTIONS" by simp
    have "length (capLoop pr' capped' cs) = min MAX_SUGGESTIONS (length capped' + s')"
      unfolding s'_def T_def by (rule Cons.IH[OF sub lt])
    then have "length (capLoop pr capped (c # cs)) = min MAX_SUGGESTIONS (length capped' + s')"
      unfolding step using False by simp
    then show ?thesis
      unfolding tot using lc by (auto split: if_splits)
  qed
qed

lemma filter_count_mono:
  assumes "mset xs' \<subseteq># mset xs"
  shows "length (filter P xs') \<le> length (filter P xs)"
proof -
  have "filter_mset P (mset xs') \<subseteq># filter_mset P (mset xs)"
    using assms by (rule multiset_filter_mono)
  then have "size (filter_mset P (mset xs')) \<le> size (filter_mset P (mset xs))"
    by (rule size_mset_mono)
  then show ?thesis by (simp flip: mset_filter)
qed

lemma strictCapped_mono:
  assumes "mset xs' \<subseteq># mset xs"
  shows "length (strictCapped q bp xs') \<le> length (strictCapped q bp xs)"
proof -
  define S where "S = routeIdx ` set xs"
  have fin: "finite S" by (simp add: S_def)
  have sub: "set xs' \<subseteq> set xs" using assms by (rule set_mset_mono[of "mset xs'" "mset xs", simplified])
  have s1: "routeIdx ` set (sort_cmp (strictCmp q bp) xs) \<subseteq> S" by (simp add: S_def set_sort_cmp)
  have s2: "routeIdx ` set (sort_cmp (strictCmp q bp) xs') \<subseteq> S" using sub by (auto simp: S_def set_sort_cmp)
  have m1: "mset (sort_cmp (strictCmp q bp) xs') \<subseteq># mset (sort_cmp (strictCmp q bp) xs)"
    using assms by (simp add: mset_sort_cmp)
  have "(\<Sum>l\<in>S. min 2 (length (filter (\<lambda>c. routeIdx c = l) (sort_cmp (strictCmp q bp) xs')))) \<le>
        (\<Sum>l\<in>S. min 2 (length (filter (\<lambda>c. routeIdx c = l) (sort_cmp (strictCmp q bp) xs))))"
    by (rule sum_mono) (use filter_count_mono[OF m1] in \<open>simp add: min_le_iff_disj\<close>)
  then show ?thesis
    unfolding strictCapped_def
    using capLoop_length_eq[OF fin s1, of "[]" Map.empty] capLoop_length_eq[OF fin s2, of "[]" Map.empty]
    by (simp add: MAX_SUGGESTIONS_def)
qed

text \<open>
  Claim C8. For a fixed request (routes of non-negative distance and duration, fixed
  provider answers and surge), lowering the distance or the time factor or raising the
  percentage or the absolute improvement threshold of the strict tier never increases the
  number of candidates the strict tier accepts, nor the number it keeps after its cap;
  and the tighter run returns whenever the looser one does.
\<close>

theorem strict_monotone:
  assumes "DIST_FACTOR t' \<le> DIST_FACTOR t" "TIME_FACTOR t' \<le> TIME_FACTOR t"
    "PCT_IMPROVE t \<le> PCT_IMPROVE t'" "ABS_IMPROVE_MIN t \<le> ABS_IMPROVE_MIN t'"
    and "\<forall>r \<in> set (visibleOf q). 0 \<le> distance r \<and> 0 \<le> duration r"
    and "strictAll t q pu dst bp = Inr xs"
  shows "\<exists>xs'. strictAll t' q pu dst bp = Inr xs' \<and> length xs' \<le> length xs \<and>
           length (strictCapped q bp xs') \<le> length (strictCapped q bp xs)"
proof -
  have "\<exists>cs'. tierAll (strictPoint t' q pu dst bp) (visibleOf q) = Inr cs' \<and> mset cs' \<subseteq># mset xs"
  proof (rule tierAll_fewer)
    show "tierAll (strictPoint t q pu dst bp) (visibleOf q) = Inr xs"
      using assms(6) by (simp add: strictAll_def)
  next
    fix r p y
    assume "r \<in> set (visibleOf q)" "strictPoint t q pu dst bp r p = Inr y"
    with assms(5) strictPoint_tighter[OF assms(1-4), of r q pu dst bp p y]
    show "strictPoint t' q pu dst bp r p = Inr None \<or> strictPoint t' q pu dst bp r p = Inr y"
      by blast
  qed
  then obtain xs' where x: "strictAll t' q pu dst bp = Inr xs'" "mset xs' \<subseteq># mset xs"
    by (auto simp: strictAll_def)
  have "length xs' \<le> length xs" using size_mset_mono[OF x(2)] by simp
  with x strictCapped_mono[OF x(2)] show ?thesis by blast
qed

subsection \<open>The fallback scenario\<close>





subsection \<open>The example requests, evaluated\<close>

lemma sampleTail_ex_short: "sampleTail (ex_short y) SAMPLE_COUNT TAIL_FRACTION = Inr [ex_p y]"
  by (simp add: sampleTail_def js_slice_def samplePoint_def Let_def upt_rec
      SAMPLE_COUNT_def TAIL_FRACTION_def ex_short_def ex_p_def)

lemma sampleTail_ex_long: "sampleTail ex_long SAMPLE_COUNT TAIL_FRACTION = Inr [ex_p (3/1000), ex_p (1/500), ex_p (1/1000)]"
  by (simp add: sampleTail_def js_slice_def samplePoint_def Let_def upt_rec
      SAMPLE_COUNT_def TAIL_FRACTION_def ex_long_def ex_p_def key5_def toFixed_def)

lemma ex_radial: "\<bar>y\<bar> \<le> 180 \<Longrightarrow> haversineMeters (ex_p y) ex_dst = 6371000 * \<bar>y\<bar> * pi / 180"
  using haversine_meridian[of 0 y 0] by (simp add: ex_p_def ex_dst_def EARTH_M_def)

lemma ex_band:
  assumes "1/1000 \<le> y" "y \<le> 3/1000"
  shows "12 \<le> haversineMeters (ex_p y) ex_dst \<and> haversineMeters (ex_p y) ex_dst \<le> 500"
proof -
  have h: "haversineMeters (ex_p y) ex_dst = 6371000 * y * pi / 180"
    using ex_radial[of y] assms by simp
  have "6371000 * (1/1000) * 2 / 180 \<le> 6371000 * y * pi / 180"
    using assms pi_ge_two by (intro divide_right_mono mult_mono) auto
  then have 1: "12 \<le> haversineMeters (ex_p y) ex_dst" unfolding h by simp
  have "6371000 * y * pi / 180 \<le> 6371000 * (3/1000) * 4 / 180"
    using assms pi_less_4 by (intro divide_right_mono mult_mono) auto
  then have "haversineMeters (ex_p y) ex_dst \<le> 500" unfolding h by simp
  with 1 show ?thesis ..
qed

lemma ex_floor_radial: "haversineMeters (ex_p ex_floor_lat) ex_dst = 12"
proof -
  have "0 < ex_floor_lat" by (simp add: ex_floor_lat_def)
  moreover have "ex_floor_lat \<le> 180"
  proof -
    have "2160 / (6371000 * pi) \<le> 2160 / (6371000 * 2)"
      using pi_ge_two by (intro divide_left_mono mult_left_mono mult_pos_pos) auto
    then show ?thesis by (simp add: ex_floor_lat_def)
  qed
  ultimately have "haversineMeters (ex_p ex_floor_lat) ex_dst = 6371000 * ex_floor_lat * pi / 180"
    using ex_radial[of ex_floor_lat] by simp
  then show ?thesis by (simp add: ex_floor_lat_def)
qed

lemma zonePenaltyUSD_ex: "\<bar>y\<bar> \<le> 1 \<Longrightarrow> zonePenaltyUSD (ex_p y) = 0"
  by (simp add: zonePenaltyUSD_def ZONES_def inBox_def ex_p_def)

lemma ex_request_sel:
  "pickup (ex_request regs w d) = Some ex_pu" "dest (ex_request regs w d) = Some ex_dst"
  "radiusM (ex_request regs w d) = 500" "visibleOf (ex_request regs w d) = regs"
  "surgeProxy (ex_request regs w d) = 1" "mapboxWalk (ex_request regs w d) = w"
  "mapboxDrive (ex_request regs w d) = d" "regularRoutes (ex_request regs w d) = regs"
  by (simp_all add: ex_request_def visibleOf_def)

lemma ex_route_sel:
  "distance (ex_route l cs) = 10000" "duration (ex_route l cs) = 1200"
  "coords (ex_route l cs) = cs" "label (ex_route l cs) = l"
  by (simp_all add: ex_route_def)

lemma ex_bestReg:
  "bestRegOf (ex_request (ex_route l cs # rs) w d) = Some (ex_route l cs)" if "rs = [] \<or> rs = [ex_route l' cs']"
  using that by (auto simp add: bestRegOf_def ex_request_sel sort_cmp_def ex_route_sel)

lemma ex_lastPoint: "lastPoint (ex_route l (ex_short y)) = ex_p 0" "lastPoint (ex_route l ex_long) = ex_p 0"
  by (simp_all add: lastPoint_def ex_route_sel ex_short_def ex_long_def ex_p_def)

lemma ex_bestPrice:
  "bestPriceOf (ex_request regs w d) (ex_route l (ex_short y)) = 31173867 / 1609340"
  "bestPriceOf (ex_request regs w d) (ex_route l ex_long) = 31173867 / 1609340"
  by (simp_all add: bestPriceOf_def ex_lastPoint ex_request_sel zonePenaltyUSD_ex modeledPriceUSD_def Let_def ex_route_sel)

lemma mk_ex_cand:
  "mkCandidate (ex_request regs w d) (ex_route l cs) (ex_p y) wm \<lparr>distance = dd, duration = dt, coords = xs\<rparr> rsn
     = ex_cand l y wm dd dt rsn"
  by (simp add: mkCandidate_def ex_cand_def ex_request_sel ex_route_sel)

lemma ex_probe:
  assumes "12 \<le> haversineMeters (ex_p y) ex_dst \<and> haversineMeters (ex_p y) ex_dst \<le> 500"
  shows "probe (ex_request regs w (const_route dd dt)) ex_pu ex_dst (ex_p y) =
     (case w (ex_p y) ex_dst of Inl e \<Rightarrow> Inl e | Inr wk \<Rightarrow>
     Inr (Some ((case wk of Some w \<Rightarrow> js_round (duration w / 60)
                 | None \<Rightarrow> metersToMinWalk (haversineMeters (ex_p y) ex_dst)), \<lparr>distance = dd, duration = dt, coords = []\<rparr>)))"
  using assms
  by (simp add: probe_def Let_def ex_request_sel const_route_def split: sum.splits)

lemma ex_strictPoint_accept:
  assumes "12 \<le> haversineMeters (ex_p y) ex_dst \<and> haversineMeters (ex_p y) ex_dst \<le> 500" "\<bar>y\<bar> \<le> 1"
    "w (ex_p y) ex_dst = Inr wk"
  shows "strictPoint TUNING (ex_request regs w (const_route 8000 1000)) ex_pu ex_dst (31173867 / 1609340) (ex_route l cs) (ex_p y)
     = Inr (Some (ex_cand l y
          (case wk of Some w \<Rightarrow> js_round (duration w / 60)
                 | None \<Rightarrow> metersToMinWalk (haversineMeters (ex_p y) ex_dst)) 8000 1000 Strict))"
  using assms(2,3)
  by (simp add: strictPoint_def ex_probe[OF assms(1)] Let_def TUNING_def ex_route_sel zonePenaltyUSD_ex ex_request_sel
      modeledPriceUSD_def mk_ex_cand)


lemma ex_relaxedPoint_accept:
  assumes "12 \<le> haversineMeters (ex_p y) ex_dst \<and> haversineMeters (ex_p y) ex_dst \<le> 500"
    "w (ex_p y) ex_dst = Inr wk" "dd \<le> 9700" "dt \<le> 1164"
  shows "relaxedPoint (ex_request regs w (const_route dd dt)) ex_pu ex_dst (ex_route l cs) (ex_p y)
     = Inr (Some (ex_cand l y
          (case wk of Some w \<Rightarrow> js_round (duration w / 60)
                 | None \<Rightarrow> metersToMinWalk (haversineMeters (ex_p y) ex_dst)) dd dt Fallback))"
  using assms(2-)
  by (simp add: relaxedPoint_def ex_probe[OF assms(1)] Let_def RELAX_DIST_def RELAX_TIME_def ex_route_sel mk_ex_cand)


lemma ex_closestPoint_accept:
  assumes "12 \<le> haversineMeters (ex_p y) ex_dst \<and> haversineMeters (ex_p y) ex_dst \<le> 500"
    "w (ex_p y) ex_dst = Inr wk"
  shows "closestPoint (ex_request regs w (const_route dd dt)) ex_pu ex_dst (ex_route l cs) (ex_p y)
     = Inr (Some (ex_cand l y
          (case wk of Some w \<Rightarrow> js_round (duration w / 60)
                 | None \<Rightarrow> metersToMinWalk (haversineMeters (ex_p y) ex_dst)) dd dt Fallback))"
  using assms(2-)
  by (simp add: closestPoint_def ex_probe[OF assms(1)] Let_def mk_ex_cand)

lemma ex_cand_sel:
  "routeIdx (ex_cand l y wm d t rsn) = l" "drop_c (ex_cand l y wm d t rsn) = ex_p y"
  "walkMin (ex_cand l y wm d t rsn) = wm" "candKey (ex_cand l y wm d t rsn) = (toFixed 6 y, toFixed 6 0)"
  "distance_m (drive (ex_cand l y wm d t rsn)) = d" "duration_s (drive (ex_cand l y wm d t rsn)) = t"
  by (simp_all add: ex_cand_def candKey_def ex_p_def)

lemma sort_cmp_single: "sort_cmp cmp [x] = [x]"
  by (simp add: sort_cmp_def)

lemmas ex_defs = ex_one_def ex_floor_def ex_longwalk_def ex_twin_def ex_relaxed_def ex_closest_def

lemma ex_band_1: "12 \<le> haversineMeters (ex_p (1/1000)) ex_dst \<and> haversineMeters (ex_p (1/1000)) ex_dst \<le> 500"
  by (rule ex_band) simp_all
lemma ex_band_2: "12 \<le> haversineMeters (ex_p (1/500)) ex_dst \<and> haversineMeters (ex_p (1/500)) ex_dst \<le> 500"
  by (rule ex_band) simp_all
lemma ex_band_3: "12 \<le> haversineMeters (ex_p (3/1000)) ex_dst \<and> haversineMeters (ex_p (3/1000)) ex_dst \<le> 500"
  by (rule ex_band) simp_all
lemma ex_band_floor: "12 \<le> haversineMeters (ex_p ex_floor_lat) ex_dst \<and> haversineMeters (ex_p ex_floor_lat) ex_dst \<le> 500"
  by (simp add: ex_floor_radial)

lemma ex_floor_lat_small: "\<bar>ex_floor_lat\<bar> \<le> 1"
proof -
  have "2160 \<le> 6371000 * pi" using pi_ge_two by linarith
  then have "2160 / (6371000 * pi) \<le> 1" by (simp add: pos_divide_le_eq)
  moreover have "0 \<le> 2160 / (6371000 * pi)" by simp
  ultimately show ?thesis unfolding ex_floor_lat_def by linarith
qed

lemma no_route_eq: "no_route a b = Inr None" by (simp add: no_route_def)
lemma const_route_eq: "const_route d t a b = Inr (Some \<lparr>distance = d, duration = t, coords = []\<rparr>)"
  by (simp add: const_route_def)

lemma ex_sel:
  "pickup ex_one = Some ex_pu" "dest ex_one = Some ex_dst"
  "pickup ex_floor = Some ex_pu" "dest ex_floor = Some ex_dst"
  "pickup ex_longwalk = Some ex_pu" "dest ex_longwalk = Some ex_dst"
  "pickup ex_twin = Some ex_pu" "dest ex_twin = Some ex_dst"
  "pickup ex_relaxed = Some ex_pu" "dest ex_relaxed = Some ex_dst"
  "pickup ex_closest = Some ex_pu" "dest ex_closest = Some ex_dst"
  by (simp_all add: ex_defs ex_request_sel)

lemma ex_bestRegs:
  "bestRegOf ex_one = Some (ex_route ''Regular A'' (ex_short (1/1000)))"
  "bestRegOf ex_floor = Some (ex_route ''Regular A'' (ex_short ex_floor_lat))"
  "bestRegOf ex_longwalk = Some (ex_route ''Regular A'' (ex_short (1/1000)))"
  "bestRegOf ex_twin = Some (ex_route ''Regular A'' (ex_short (1/1000)))"
  "bestRegOf ex_relaxed = Some (ex_route ''Regular A'' ex_long)"
  "bestRegOf ex_closest = Some (ex_route ''Regular A'' ex_long)"
  unfolding ex_defs by (rule ex_bestReg, simp)+

lemma ex_bestPrices:
  "bestPriceOf ex_one (ex_route ''Regular A'' (ex_short (1/1000))) = 31173867 / 1609340"
  "bestPriceOf ex_floor (ex_route ''Regular A'' (ex_short ex_floor_lat)) = 31173867 / 1609340"
  "bestPriceOf ex_longwalk (ex_route ''Regular A'' (ex_short (1/1000))) = 31173867 / 1609340"
  "bestPriceOf ex_twin (ex_route ''Regular A'' (ex_short (1/1000))) = 31173867 / 1609340"
  "bestPriceOf ex_relaxed (ex_route ''Regular A'' ex_long) = 31173867 / 1609340"
  "bestPriceOf ex_closest (ex_route ''Regular A'' ex_long) = 31173867 / 1609340"
  unfolding ex_defs by (rule ex_bestPrice)+

text \<open>The request \<open>ex_one\<close>.\<close>

lemma ex_one_strictAll:
  "strictAll TUNING ex_one ex_pu ex_dst (31173867 / 1609340) =
     Inr [ex_cand ''Regular A'' (1/1000) (metersToMinWalk (haversineMeters (ex_p (1/1000)) ex_dst)) 8000 1000 Strict]"
  unfolding ex_one_def strictAll_def
  by (simp add: ex_request_sel ex_route_sel sampleTail_ex_short ex_strictPoint_accept[OF ex_band_1, where wk=None] no_route_eq)

lemma ex_one_relaxedAll:
  "relaxedAll ex_one ex_pu ex_dst =
     Inr [ex_cand ''Regular A'' (1/1000) (metersToMinWalk (haversineMeters (ex_p (1/1000)) ex_dst)) 8000 1000 Fallback]"
  unfolding ex_one_def relaxedAll_def
  by (simp add: ex_request_sel ex_route_sel sampleTail_ex_short ex_relaxedPoint_accept[OF ex_band_1, where wk=None] no_route_eq)

lemma ex_one_closestAll:
  "closestAll ex_one ex_pu ex_dst =
     Inr [ex_cand ''Regular A'' (1/1000) (metersToMinWalk (haversineMeters (ex_p (1/1000)) ex_dst)) 8000 1000 Fallback]"
  unfolding ex_one_def closestAll_def
  by (simp add: ex_request_sel ex_route_sel sampleTail_ex_short ex_closestPoint_accept[OF ex_band_1, where wk=None] no_route_eq)

lemma ex_one_discover:
  "discover ex_one =
     Inr [ex_cand ''Regular A'' (1/1000) (metersToMinWalk (haversineMeters (ex_p (1/1000)) ex_dst)) 8000 1000 Strict]"
  unfolding discover_def discoverWith_def
  by (simp add: ex_sel ex_bestRegs ex_bestPrices ex_one_strictAll strictCapped_def sort_cmp_single relaxedPass_def
        closestPass_def ex_one_relaxedAll ex_one_closestAll MIN_SUGGESTIONS_def MAX_SUGGESTIONS_def
        ex_cand_sel)

text \<open>The request \<open>ex_floor\<close>.\<close>

lemma ex_floor_strictAll:
  "strictAll TUNING ex_floor ex_pu ex_dst (31173867 / 1609340) =
     Inr [ex_cand ''Regular A'' ex_floor_lat 0 8000 1000 Strict]"
  unfolding ex_floor_def strictAll_def
  by (simp add: ex_request_sel ex_route_sel sampleTail_ex_short ex_strictPoint_accept[OF ex_band_floor ex_floor_lat_small, where wk=None]
      no_route_eq ex_floor_radial metersToMinWalk_def js_round_def)

lemma ex_floor_relaxedAll:
  "relaxedAll ex_floor ex_pu ex_dst =
     Inr [ex_cand ''Regular A'' ex_floor_lat 0 8000 1000 Fallback]"
  unfolding ex_floor_def relaxedAll_def
  by (simp add: ex_request_sel ex_route_sel sampleTail_ex_short ex_relaxedPoint_accept[OF ex_band_floor, where wk=None] no_route_eq
     ex_floor_radial metersToMinWalk_def js_round_def)

lemma ex_floor_closestAll:
  "closestAll ex_floor ex_pu ex_dst =
     Inr [ex_cand ''Regular A'' ex_floor_lat 0 8000 1000 Fallback]"
  unfolding ex_floor_def closestAll_def
  by (simp add: ex_request_sel ex_route_sel sampleTail_ex_short ex_closestPoint_accept[OF ex_band_floor, where wk=None] no_route_eq
     ex_floor_radial metersToMinWalk_def js_round_def)

lemma ex_floor_discover:
  "discover ex_floor = Inr [ex_cand ''Regular A'' ex_floor_lat 0 8000 1000 Strict]"
  unfolding discover_def discoverWith_def
  by (simp add: ex_sel ex_bestRegs ex_bestPrices ex_floor_strictAll strictCapped_def sort_cmp_single relaxedPass_def
        closestPass_def ex_floor_relaxedAll ex_floor_closestAll MIN_SUGGESTIONS_def MAX_SUGGESTIONS_def
        ex_cand_sel)

text \<open>The request \<open>ex_longwalk\<close>.\<close>

lemma ex_longwalk_strictAll:
  "strictAll TUNING ex_longwalk ex_pu ex_dst (31173867 / 1609340) =
     Inr [ex_cand ''Regular A'' (1/1000) 60 8000 1000 Strict]"
  unfolding ex_longwalk_def strictAll_def
  by (simp add: ex_request_sel ex_route_sel sampleTail_ex_short
      ex_strictPoint_accept[OF ex_band_1, where wk="Some \<lparr>distance = 3000, duration = 3600, coords = []\<rparr>"]
      const_route_eq js_round_def)

lemma ex_longwalk_relaxedAll:
  "relaxedAll ex_longwalk ex_pu ex_dst =
     Inr [ex_cand ''Regular A'' (1/1000) 60 8000 1000 Fallback]"
  unfolding ex_longwalk_def relaxedAll_def
  by (simp add: ex_request_sel ex_route_sel sampleTail_ex_short
      ex_relaxedPoint_accept[OF ex_band_1, where wk="Some \<lparr>distance = 3000, duration = 3600, coords = []\<rparr>"]
      const_route_eq js_round_def)

lemma ex_longwalk_closestAll:
  "closestAll ex_longwalk ex_pu ex_dst =
     Inr [ex_cand ''Regular A'' (1/1000) 60 8000 1000 Fallback]"
  unfolding ex_longwalk_def closestAll_def
  by (simp add: ex_request_sel ex_route_sel sampleTail_ex_short
      ex_closestPoint_accept[OF ex_band_1, where wk="Some \<lparr>distance = 3000, duration = 3600, coords = []\<rparr>"]
      const_route_eq js_round_def)

lemma ex_longwalk_discover:
  "discover ex_longwalk = Inr [ex_cand ''Regular A'' (1/1000) 60 8000 1000 Strict]"
  unfolding discover_def discoverWith_def
  by (simp add: ex_sel ex_bestRegs ex_bestPrices ex_longwalk_strictAll strictCapped_def sort_cmp_single relaxedPass_def
        closestPass_def ex_longwalk_relaxedAll ex_longwalk_closestAll MIN_SUGGESTIONS_def MAX_SUGGESTIONS_def
        ex_cand_sel)

text \<open>The request \<open>ex_twin\<close>.\<close>

lemma ex_twin_strictAll:
  "strictAll TUNING ex_twin ex_pu ex_dst (31173867 / 1609340) =
     Inr [ex_cand ''Regular A'' (1/1000) (metersToMinWalk (haversineMeters (ex_p (1/1000)) ex_dst)) 8000 1000 Strict,
          ex_cand ''Regular B'' (1/1000) (metersToMinWalk (haversineMeters (ex_p (1/1000)) ex_dst)) 8000 1000 Strict]"
  unfolding ex_twin_def strictAll_def
  by (simp add: ex_request_sel ex_route_sel sampleTail_ex_short ex_strictPoint_accept[OF ex_band_1, where wk=None] no_route_eq)

lemma ex_twin_discover:
  "discover ex_twin =
     Inr [ex_cand ''Regular A'' (1/1000) (metersToMinWalk (haversineMeters (ex_p (1/1000)) ex_dst)) 8000 1000 Strict,
          ex_cand ''Regular B'' (1/1000) (metersToMinWalk (haversineMeters (ex_p (1/1000)) ex_dst)) 8000 1000 Strict]"
  unfolding discover_def discoverWith_def
  by (simp add: ex_sel ex_bestRegs ex_bestPrices ex_twin_strictAll strictCapped_def sort_cmp_def relaxedPass_def
        closestPass_def MIN_SUGGESTIONS_def MAX_SUGGESTIONS_def strictCmp_def priceOf_def Let_def
        ex_cand_sel)





















lemma ex_strict3_relaxedAll:
  "relaxedAll ex_strict3 ex_pu ex_dst =
     Inr [ex_cand ''Regular A'' (3/1000) wm3 8000 1000 Fallback,
          ex_cand ''Regular A'' (1/500) wm2 8000 1000 Fallback,
          ex_cand ''Regular A'' (1/1000) wm1 8000 1000 Fallback]"
  unfolding ex_strict3_def relaxedAll_def
  by (simp add: ex_request_sel ex_route_sel sampleTail_ex_long no_route_eq
      ex_relaxedPoint_accept[OF ex_band_1, where wk=None] ex_relaxedPoint_accept[OF ex_band_2, where wk=None]
      ex_relaxedPoint_accept[OF ex_band_3, where wk=None])

lemma ex_strict3_closestAll:
  "closestAll ex_strict3 ex_pu ex_dst =
     Inr [ex_cand ''Regular A'' (3/1000) wm3 8000 1000 Fallback,
          ex_cand ''Regular A'' (1/500) wm2 8000 1000 Fallback,
          ex_cand ''Regular A'' (1/1000) wm1 8000 1000 Fallback]"
  unfolding ex_strict3_def closestAll_def
  by (simp add: ex_request_sel ex_route_sel sampleTail_ex_long no_route_eq
      ex_closestPoint_accept[OF ex_band_1, where wk=None] ex_closestPoint_accept[OF ex_band_2, where wk=None]
      ex_closestPoint_accept[OF ex_band_3, where wk=None])



subsection \<open>The radius band\<close>

text \<open>
  Claim C3, as stated, fails at the separation floor: in the request \<open>ex_floor\<close> the
  sampled point is exactly 12 m from the destination, and the pipeline returns it.
\<close>

theorem candidate_at_separation_floor:
  "dest ex_floor = Some ex_dst \<and>
   discover ex_floor = Inr [ex_cand ''Regular A'' ex_floor_lat 0 8000 1000 Strict] \<and>
   \<not> (12 < haversineMeters (drop_c (ex_cand ''Regular A'' ex_floor_lat 0 8000 1000 Strict)) ex_dst \<and>
      haversineMeters (drop_c (ex_cand ''Regular A'' ex_floor_lat 0 8000 1000 Strict)) ex_dst
        \<le> radiusM ex_floor)"
  by (simp add: ex_sel ex_floor_discover ex_cand_sel ex_floor_radial)

text \<open>
  Claim C3, amended. Every candidate the pipeline returns lies in the closed band: its
  haversine distance to the destination is at least 12 m and at most the walk radius.
\<close>

theorem candidates_within_radius:
  assumes "discover q = Inr rs" "dest q = Some dst" "c \<in> set rs"
  shows "12 \<le> haversineMeters (drop_c c) dst \<and> haversineMeters (drop_c c) dst \<le> radiusM q"
  using discoverWith_admitted[of TUNING q rs c] assms admitted_band(1,2)
  by (auto simp: discover_def)

text \<open>The amended claim C3 at the request \<open>ex_one\<close>, whose one candidate is about 111 m away.\<close>

theorem candidates_within_radius_witness:
  "discover ex_one = Inr [ex_cand ''Regular A'' (1/1000) wm1 8000 1000 Strict] \<and>
   dest ex_one = Some ex_dst \<and>
   12 \<le> haversineMeters (drop_c (ex_cand ''Regular A'' (1/1000) wm1 8000 1000 Strict)) ex_dst \<and>
   haversineMeters (drop_c (ex_cand ''Regular A'' (1/1000) wm1 8000 1000 Strict)) ex_dst \<le> radiusM ex_one"
proof -
  have d: "discover ex_one = Inr [ex_cand ''Regular A'' (1/1000) wm1 8000 1000 Strict]"
    by (rule ex_one_discover)
  have e: "dest ex_one = Some ex_dst" by (simp add: ex_sel)
  have m: "ex_cand ''Regular A'' (1/1000) wm1 8000 1000 Strict
             \<in> set [ex_cand ''Regular A'' (1/1000) wm1 8000 1000 Strict]" by simp
  from candidates_within_radius[OF d e m] d e show ?thesis by simp
qed

subsection \<open>The walking time\<close>

text \<open>
  Claim C4, as stated, fails on the three-tier pipeline: in the request \<open>ex_longwalk\<close> the
  walking provider reports one hour from the sampled point, the ceiling for a radius of
  500 m is 6 minutes, 7 with the slack, and the pipeline returns the point with a walk of
  60 minutes.
\<close>

theorem long_walk_accepted:
  "mapboxWalk ex_longwalk (ex_p (1/1000)) ex_dst
     = Inr (Some \<lparr>distance = 3000, duration = 3600, coords = []\<rparr>) \<and>
   discover ex_longwalk = Inr [ex_cand ''Regular A'' (1/1000) 60 8000 1000 Strict] \<and>
   metersToMinWalk (radiusM ex_longwalk) + 1 = 7 \<and>
   \<not> (walkMin (ex_cand ''Regular A'' (1/1000) 60 8000 1000 Strict)
        \<le> metersToMinWalk (radiusM ex_longwalk) + 1)"
  by (simp add: ex_longwalk_discover ex_cand_sel metersToMinWalk_def js_round_def)
     (simp add: ex_longwalk_def ex_request_sel const_route_eq metersToMinWalk_def js_round_def)

text \<open>
  Claim C4, amended. Every candidate the three-tier pipeline returns is within the walk
  radius, so the straight-line walking time of its drop point (its distance to the
  destination at 1.33 m/s, in minutes) never exceeds the walk-radius-derived ceiling.
  Its walking minutes are that estimate when the walking provider has no route, and the
  provider's duration in minutes, rounded, when it has one: a walking time that the
  provider reports is recorded and not checked.
\<close>

theorem walk_estimate_within_ceiling:
  assumes "discover q = Inr rs" "dest q = Some dst" "c \<in> set rs"
  shows "haversineMeters (drop_c c) dst \<le> radiusM q \<and>
     metersToMinWalk (haversineMeters (drop_c c) dst) \<le> metersToMinWalk (radiusM q) \<and>
     (\<exists>wk. mapboxWalk q (drop_c c) dst = Inr wk \<and>
        walkMin c = (case wk of Some w \<Rightarrow> js_round (duration w / 60)
                     | None \<Rightarrow> metersToMinWalk (haversineMeters (drop_c c) dst)))"
proof -
  from discoverWith_admitted[of TUNING q rs c] assms obtain pu where
    ad: "admitted q pu dst c" by (auto simp: discover_def)
  from admitted_band(2)[OF ad] have r: "haversineMeters (drop_c c) dst \<le> radiusM q" .
  from r metersToMinWalk_mono[OF r] admitted_walk[OF ad] show ?thesis by blast
qed

text \<open>
  The amended claim C4 at the request \<open>ex_one\<close>, where the walking provider has no route,
  and at the request \<open>ex_longwalk\<close>, where it reports a walk of one hour.
\<close>

theorem walk_estimate_within_ceiling_witness:
  "discover ex_one = Inr [ex_cand ''Regular A'' (1/1000) wm1 8000 1000 Strict] \<and>
   dest ex_one = Some ex_dst \<and>
   mapboxWalk ex_one (drop_c (ex_cand ''Regular A'' (1/1000) wm1 8000 1000 Strict)) ex_dst = Inr None \<and>
   haversineMeters (drop_c (ex_cand ''Regular A'' (1/1000) wm1 8000 1000 Strict)) ex_dst \<le> radiusM ex_one \<and>
   metersToMinWalk (haversineMeters (drop_c (ex_cand ''Regular A'' (1/1000) wm1 8000 1000 Strict)) ex_dst)
     \<le> metersToMinWalk (radiusM ex_one) \<and>
   walkMin (ex_cand ''Regular A'' (1/1000) wm1 8000 1000 Strict)
     = metersToMinWalk (haversineMeters (drop_c (ex_cand ''Regular A'' (1/1000) wm1 8000 1000 Strict)) ex_dst) \<and>
   discover ex_longwalk = Inr [ex_cand ''Regular A'' (1/1000) 60 8000 1000 Strict] \<and>
   dest ex_longwalk = Some ex_dst \<and>
   mapboxWalk ex_longwalk (drop_c (ex_cand ''Regular A'' (1/1000) 60 8000 1000 Strict)) ex_dst
     = Inr (Some \<lparr>distance = 3000, duration = 3600, coords = []\<rparr>) \<and>
   haversineMeters (drop_c (ex_cand ''Regular A'' (1/1000) 60 8000 1000 Strict)) ex_dst \<le> radiusM ex_longwalk \<and>
   metersToMinWalk (haversineMeters (drop_c (ex_cand ''Regular A'' (1/1000) 60 8000 1000 Strict)) ex_dst)
     \<le> metersToMinWalk (radiusM ex_longwalk) \<and>
   walkMin (ex_cand ''Regular A'' (1/1000) 60 8000 1000 Strict) = js_round (3600 / 60)"
proof -
  have d: "discover ex_one = Inr [ex_cand ''Regular A'' (1/1000) wm1 8000 1000 Strict]"
    by (rule ex_one_discover)
  have e: "dest ex_one = Some ex_dst" by (simp add: ex_sel)
  have m: "ex_cand ''Regular A'' (1/1000) wm1 8000 1000 Strict
             \<in> set [ex_cand ''Regular A'' (1/1000) wm1 8000 1000 Strict]" by simp
  have w: "mapboxWalk ex_one (drop_c (ex_cand ''Regular A'' (1/1000) wm1 8000 1000 Strict)) ex_dst = Inr None"
    by (simp add: ex_one_def ex_request_sel no_route_eq)
  have d': "discover ex_longwalk = Inr [ex_cand ''Regular A'' (1/1000) 60 8000 1000 Strict]"
    by (rule ex_longwalk_discover)
  have e': "dest ex_longwalk = Some ex_dst" by (simp add: ex_sel)
  have m': "ex_cand ''Regular A'' (1/1000) 60 8000 1000 Strict
             \<in> set [ex_cand ''Regular A'' (1/1000) 60 8000 1000 Strict]" by simp
  have w': "mapboxWalk ex_longwalk (drop_c (ex_cand ''Regular A'' (1/1000) 60 8000 1000 Strict)) ex_dst
     = Inr (Some \<lparr>distance = 3000, duration = 3600, coords = []\<rparr>)"
    by (simp add: ex_longwalk_def ex_request_sel const_route_eq)
  have 1: "haversineMeters (drop_c (ex_cand ''Regular A'' (1/1000) wm1 8000 1000 Strict)) ex_dst \<le> radiusM ex_one \<and>
   metersToMinWalk (haversineMeters (drop_c (ex_cand ''Regular A'' (1/1000) wm1 8000 1000 Strict)) ex_dst)
     \<le> metersToMinWalk (radiusM ex_one) \<and>
   walkMin (ex_cand ''Regular A'' (1/1000) wm1 8000 1000 Strict)
     = metersToMinWalk (haversineMeters (drop_c (ex_cand ''Regular A'' (1/1000) wm1 8000 1000 Strict)) ex_dst)"
    using walk_estimate_within_ceiling[OF d e m] w by auto
  have 2: "haversineMeters (drop_c (ex_cand ''Regular A'' (1/1000) 60 8000 1000 Strict)) ex_dst \<le> radiusM ex_longwalk \<and>
   metersToMinWalk (haversineMeters (drop_c (ex_cand ''Regular A'' (1/1000) 60 8000 1000 Strict)) ex_dst)
     \<le> metersToMinWalk (radiusM ex_longwalk) \<and>
   walkMin (ex_cand ''Regular A'' (1/1000) 60 8000 1000 Strict) = js_round (3600 / 60)"
    using walk_estimate_within_ceiling[OF d' e' m'] w' by auto
  from 1 2 d e w d' e' w' show ?thesis by blast
qed

text \<open>
  The older two-pass pipeline does reject on the walking time: an entry it pushes has
  walking minutes within the ceiling plus one.
\<close>

lemma buildPoint_walk_ceiling:
  assumes "buildPoint strict w1 w2 q pu dst r p = Inr (Some (p', wm, drv))"
  shows "wm \<le> metersToMinWalk (radiusM q) + 1"
  using assms
  by (auto simp: buildPoint_def Let_def split: if_splits sum.splits option.splits)

subsection \<open>Duplicate keys\<close>

text \<open>
  Claim C6 fails when two visible routes share a tail point that passes the strict test:
  the strict pass keeps one candidate per route, both with the same six-decimal key, and
  no later step removes either.
\<close>

theorem duplicate_keys_from_strict_pass:
  "discover ex_twin =
     Inr [ex_cand ''Regular A'' (1/1000) wm1 8000 1000 Strict,
          ex_cand ''Regular B'' (1/1000) wm1 8000 1000 Strict] \<and>
   candKey (ex_cand ''Regular A'' (1/1000) wm1 8000 1000 Strict)
     = candKey (ex_cand ''Regular B'' (1/1000) wm1 8000 1000 Strict)"
  by (simp add: ex_twin_discover ex_cand_sel)

text \<open>The merge of the relaxed and of the fallback pass adds no key twice and no key it was given.\<close>

lemma mergeLoop_fresh_keys:
  "\<exists>added. mergeLoop lm have res cs = res @ added \<and> distinct (map candKey added) \<and>
     candKey ` set added \<inter> have = {}"
proof (induction cs arbitrary: "have" res)
  case Nil
  show ?case by simp
next
  case (Cons c cs)
  show ?case
  proof (cases "candKey c \<in> have")
    case True
    with Cons.IH[of "have" res] show ?thesis by simp
  next
    case False
    show ?thesis
    proof (cases "lm \<le> length (res @ [c])")
      case True
      with False have "mergeLoop lm have res (c # cs) = res @ [c]" by (simp add: Let_def)
      with False show ?thesis by auto
    next
      case False2: False
      from Cons.IH[of "insert (candKey c) have" "res @ [c]"] obtain added where
        a: "mergeLoop lm (insert (candKey c) have) (res @ [c]) cs = (res @ [c]) @ added"
          "distinct (map candKey added)" "candKey ` set added \<inter> insert (candKey c) have = {}"
        by blast
      have "mergeLoop lm have res (c # cs) = res @ (c # added)"
        using False False2 a(1) by (simp add: Let_def)
      moreover have "distinct (map candKey (c # added))" using a(2,3) by auto
      moreover have "candKey ` set (c # added) \<inter> have = {}" using a(3) False by auto
      ultimately show ?thesis by blast
    qed
  qed
qed

subsection \<open>Caps\<close>




subsection \<open>Witnesses of the monotonicity and of the fallback scenario\<close>

text \<open>Claim C8 at the request \<open>ex_one\<close>, from the thresholds \<open>TUNING\<close> to the tighter \<open>ex_tight\<close>.\<close>

theorem strict_monotone_witness:
  "DIST_FACTOR ex_tight \<le> DIST_FACTOR TUNING \<and> TIME_FACTOR ex_tight \<le> TIME_FACTOR TUNING \<and>
   PCT_IMPROVE TUNING \<le> PCT_IMPROVE ex_tight \<and> ABS_IMPROVE_MIN TUNING \<le> ABS_IMPROVE_MIN ex_tight \<and>
   strictAll TUNING ex_one ex_pu ex_dst (31173867 / 1609340)
     = Inr [ex_cand ''Regular A'' (1/1000) wm1 8000 1000 Strict] \<and>
   (\<exists>xs'. strictAll ex_tight ex_one ex_pu ex_dst (31173867 / 1609340) = Inr xs' \<and>
      length xs' \<le> length [ex_cand ''Regular A'' (1/1000) wm1 8000 1000 Strict] \<and>
      length (strictCapped ex_one (31173867 / 1609340) xs')
        \<le> length (strictCapped ex_one (31173867 / 1609340)
             [ex_cand ''Regular A'' (1/1000) wm1 8000 1000 Strict]))"
proof -
  have t: "DIST_FACTOR ex_tight \<le> DIST_FACTOR TUNING" "TIME_FACTOR ex_tight \<le> TIME_FACTOR TUNING"
    "PCT_IMPROVE TUNING \<le> PCT_IMPROVE ex_tight" "ABS_IMPROVE_MIN TUNING \<le> ABS_IMPROVE_MIN ex_tight"
    by (simp_all add: ex_tight_def TUNING_def)
  have r: "\<forall>r \<in> set (visibleOf ex_one). 0 \<le> distance r \<and> 0 \<le> duration r"
    by (simp add: ex_one_def ex_request_sel ex_route_sel)
  have s: "strictAll TUNING ex_one ex_pu ex_dst (31173867 / 1609340)
     = Inr [ex_cand ''Regular A'' (1/1000) wm1 8000 1000 Strict]"
    by (rule ex_one_strictAll)
  from strict_monotone[OF t r s] t s show ?thesis by blast
qed



subsection \<open>A route of one point\<close>

lemma sampleTail_singleton: "sampleTail [c] SAMPLE_COUNT TAIL_FRACTION = Inl TypeError"
  by (simp add: sampleTail_def js_slice_def samplePoint_def Let_def upt_rec
      SAMPLE_COUNT_def TAIL_FRACTION_def)

lemma discover_single_point_route_throws: "discover ex_point = Inl TypeError"
proof -
  have "bestRegOf ex_point = Some (ex_route ''Regular A'' [(0, 0)])"
    unfolding ex_point_def by (rule ex_bestReg[where rs = "[]"]) simp
  moreover have "strictAll TUNING ex_point ex_pu ex_dst bp = Inl TypeError" for bp
    by (simp add: strictAll_def ex_point_def ex_request_sel ex_route_sel sampleTail_singleton)
  ultimately show ?thesis
    by (simp add: discover_def discoverWith_def ex_point_def ex_request_sel)
qed

end
